theory Spec2Isabelle
  imports Complex_Main
begin

section \<open>Data model (types.ts)\<close>

text \<open>
  The TypeScript \<open>number\<close> type is modelled by \<open>real\<close>: the rounding of IEEE doubles, NaN
  and the infinities are outside the model. Strings are lists of 8-bit characters, so
  \<open>toLowerCase\<close> is the ASCII one. An optional property (\<open>mealType?\<close>, \<open>estimatedDuration?\<close>,
  the optional fields of the options) is an \<open>option\<close>, \<open>None\<close> standing for \<open>undefined\<close> and
  \<open>null\<close>.
\<close>

datatype PlaceType = Landmark | Cafe | Restaurant | Shopping | Activity | Bakery | Bar | Culture

datatype MealType = Lunch | Dinner | CafeMeal

datatype Theme = Healing | ActivityTheme | Gourmet

datatype Companion = Partner | Friend | Family | Solo

datatype Transport = Car | Foot

datatype Intensity = Relaxed | Packed

record Place =
  placeId :: string
  name :: string
  nameKo :: string
  ptype :: PlaceType
  lat :: real
  lng :: real
  isIndoor :: bool
  description :: string
  themes :: "Theme list"
  mealType :: "MealType option"
  estimatedDuration :: "real option"

section \<open>Strings\<close>

definition toLowerChar :: "char \<Rightarrow> char" where
  "toLowerChar c =
     (if (65::nat) \<le> of_char c \<and> of_char c \<le> (90::nat) then char_of (of_char c + (32::nat)) else c)"

definition toLowerCase :: "string \<Rightarrow> string" where
  "toLowerCase s = map toLowerChar s"

fun startsWith :: "string \<Rightarrow> string \<Rightarrow> bool" where
  "startsWith s [] = True"
| "startsWith [] (k # ks) = False"
| "startsWith (c # cs) (k # ks) = (c = k \<and> startsWith cs ks)"

text \<open>\<open>s.includes(kw)\<close>: \<open>kw\<close> occurs in \<open>s\<close> as a contiguous substring.\<close>

fun str_includes :: "string \<Rightarrow> string \<Rightarrow> bool" where
  "str_includes [] kw = (kw = [])"
| "str_includes (c # cs) kw = (startsWith (c # cs) kw \<or> str_includes cs kw)"

section \<open>Preference vector model (UserPreferenceModel.ts)\<close>

datatype VectorDimension =
  Meat | Seafood | Noodle | Rice | Bread | Quiet | Active | Indoor | Nature | Luxury

definition VECTOR_DIMENSIONS :: "VectorDimension list" where
  "VECTOR_DIMENSIONS = [Meat, Seafood, Noodle, Rice, Bread, Quiet, Active, Indoor, Nature, Luxury]"

type_synonym UserVector = "VectorDimension \<Rightarrow> real"

definition INITIAL_USER_VECTOR :: UserVector where
  "INITIAL_USER_VECTOR = (\<lambda>dimension. 0.5)"

definition placeToFeatureVector :: "Place \<Rightarrow> UserVector" where
  "placeToFeatureVector place =
    (let vector = INITIAL_USER_VECTOR;
         nameLower = toLowerCase (name place);
         descriptionLower = toLowerCase (description place);
         combinedText = nameLower @ '' '' @ descriptionLower;
         inc = str_includes combinedText;
         v1 = (if inc ''steak'' \<or> inc ''meat'' \<or> inc ''bbq'' \<or> inc ''grill''
               then vector(Meat := 1.0) else vector);
         v2 = (if inc ''seafood'' \<or> inc ''fish'' \<or> inc ''sushi'' \<or> inc ''sashimi''
               then v1(Seafood := 1.0) else v1);
         v3 = (if inc ''noodle'' \<or> inc ''ramen'' \<or> inc ''udon'' \<or> inc ''soba''
               then v2(Noodle := 1.0) else v2);
         v4 = (if inc ''rice'' \<or> inc ''bibimbap'' \<or> inc ''gukbap''
               then v3(Rice := 1.0) else v3);
         v5 = (if ptype place = Bakery \<or> inc ''bread'' \<or> inc ''bakery'' \<or> inc ''pastry''
               then v4(Bread := 1.0) else v4);
         v6 = (if inc ''quiet'' \<or> inc ''peaceful'' \<or> inc ''serene'' \<or> ptype place = Culture
               then v5(Quiet := 1.0) else v5);
         v7 = (if inc ''active'' \<or> inc ''sport'' \<or> inc ''adventure'' \<or> ptype place = Activity
               then v6(Active := 1.0) else v6);
         v8 = (if isIndoor place then v7(Indoor := 1.0) else v7(Nature := 1.0));
         v9 = (if inc ''park'' \<or> inc ''garden'' \<or> inc ''nature'' \<or> ptype place = Landmark
               then v8(Nature := 0.8) else v8);
         v10 = (if inc ''luxury'' \<or> inc ''premium'' \<or> inc ''fine dining'' \<or> inc ''gourmet''
                then v9(Luxury := 1.0)
                else if inc ''steak'' \<or> inc ''lounge'' \<or> inc ''dining''
                then v9(Luxury := 0.8) else v9)
     in v10)"

datatype FeedbackAction = LIKE | DISLIKE

text \<open>
  \<open>parseFloat(x.toFixed(3))\<close>: the nearest multiple of 0.001, a tie going away from zero;
  from \<open>10^21\<close> on \<open>toFixed\<close> prints the number itself.
\<close>

definition toFixed3 :: "real \<Rightarrow> real" where
  "toFixed3 x =
     (if \<bar>x\<bar> \<ge> 10 ^ 21 then x
      else if x < 0 then - (of_int \<lfloor>(- x) * 1000 + 1 / 2\<rfloor> / 1000)
      else of_int \<lfloor>x * 1000 + 1 / 2\<rfloor> / 1000)"

definition updateDelta :: "FeedbackAction \<Rightarrow> real" where
  "updateDelta action = (if action = LIKE then 0.1 else - 0.2)"

definition updateDim :: "UserVector \<Rightarrow> real \<Rightarrow> VectorDimension \<Rightarrow> UserVector \<Rightarrow> UserVector" where
  "updateDim placeVector delta dimension next =
     (if placeVector dimension > 0
      then (let prev = next dimension; updated = prev + delta
            in next(dimension := max 0.0 (min 1.0 (toFixed3 updated))))
      else next)"

definition updateUserVector :: "Place \<Rightarrow> FeedbackAction \<Rightarrow> UserVector \<Rightarrow> UserVector" where
  "updateUserVector place action current =
     (let placeVector = placeToFeatureVector place;
          delta = updateDelta action
      in fold (updateDim placeVector delta) VECTOR_DIMENSIONS current)"

section \<open>Scoring (courseGenerator.ts)\<close>

text \<open>
  A JavaScript number is an IEEE double: a finite value, one of the two infinities, or NaN.
  Every arithmetic operation rounds its exact result to a double. Elsewhere in this theory
  numbers are reals and that rounding is left out; \<open>cosineSimilarity\<close> is modelled with it.
  The sign of a zero is not modelled: the function compares its denominator with 0 before it
  divides, and \<open>-0 === 0\<close> holds.
\<close>

datatype JsNumber = Num real | PosInfinity | NegInfinity | NaN

text \<open>Rounding to the nearest integer, to the even one on a tie.\<close>

definition roundHalfEven :: "real \<Rightarrow> int" where
  "roundHalfEven q =
     (let n = \<lfloor>q\<rfloor>; r = q - of_int n
      in if r < 1 / 2 then n
         else if r > 1 / 2 then n + 1
         else if even n then n else n + 1)"

text \<open>
  Rounding to the binary64 format: 53 significant bits, to the nearest and to the even one on
  a tie; below \<open>2 powr - 1022\<close> the spacing stays \<open>2 powr - 1074\<close> (subnormal numbers). A result
  that rounds to \<open>2 ^ 1024\<close> or beyond overflows to an infinity.
\<close>

definition roundBinary64 :: "real \<Rightarrow> real" where
  "roundBinary64 x =
     (if x = 0 then 0
      else (let e = max \<lfloor>log 2 \<bar>x\<bar>\<rfloor> (- 1022);
                ulp = 2 powr of_int (e - 52)
            in of_int (roundHalfEven (x / ulp)) * ulp))"

definition number :: "real \<Rightarrow> JsNumber" where
  "number x =
     (let r = roundBinary64 x
      in if 2 ^ 1024 \<le> r then PosInfinity
         else if r \<le> - (2 ^ 1024) then NegInfinity
         else Num r)"

fun negate :: "JsNumber \<Rightarrow> JsNumber" where
  "negate (Num x) = Num (- x)"
| "negate PosInfinity = NegInfinity"
| "negate NegInfinity = PosInfinity"
| "negate NaN = NaN"

fun jsAdd :: "JsNumber \<Rightarrow> JsNumber \<Rightarrow> JsNumber" where
  "jsAdd (Num x) (Num y) = number (x + y)"
| "jsAdd NaN y = NaN"
| "jsAdd x NaN = NaN"
| "jsAdd PosInfinity NegInfinity = NaN"
| "jsAdd NegInfinity PosInfinity = NaN"
| "jsAdd PosInfinity y = PosInfinity"
| "jsAdd NegInfinity y = NegInfinity"
| "jsAdd (Num x) y = y"

text \<open>An infinity times a finite number: NaN for 0, otherwise an infinity with the sign of
  the product.\<close>

definition infinityTimes :: "JsNumber \<Rightarrow> real \<Rightarrow> JsNumber" where
  "infinityTimes i x = (if x = 0 then NaN else if 0 < x then i else negate i)"

fun jsMul :: "JsNumber \<Rightarrow> JsNumber \<Rightarrow> JsNumber" where
  "jsMul (Num x) (Num y) = number (x * y)"
| "jsMul NaN y = NaN"
| "jsMul x NaN = NaN"
| "jsMul (Num x) i = infinityTimes i x"
| "jsMul i (Num y) = infinityTimes i y"
| "jsMul PosInfinity i = i"
| "jsMul NegInfinity i = negate i"

fun jsDiv :: "JsNumber \<Rightarrow> JsNumber \<Rightarrow> JsNumber" where
  "jsDiv (Num x) (Num y) =
     (if y = 0 then (if x = 0 then NaN else if 0 < x then PosInfinity else NegInfinity)
      else number (x / y))"
| "jsDiv NaN y = NaN"
| "jsDiv x NaN = NaN"
| "jsDiv (Num x) i = Num 0"
| "jsDiv i (Num y) = (if 0 \<le> y then i else negate i)"
| "jsDiv i j = NaN"

fun jsSqrt :: "JsNumber \<Rightarrow> JsNumber" where
  "jsSqrt (Num x) = (if x < 0 then NaN else number (sqrt x))"
| "jsSqrt PosInfinity = PosInfinity"
| "jsSqrt NegInfinity = NaN"
| "jsSqrt NaN = NaN"

text \<open>
  The loop of \<open>cosineSimilarity\<close> keeps three running sums. The components of the two vectors
  are finite numbers; \<open>a || 0\<close> is \<open>a\<close> for such a number.
\<close>

definition cosineStep ::
  "UserVector \<Rightarrow> UserVector \<Rightarrow> VectorDimension \<Rightarrow> JsNumber \<times> JsNumber \<times> JsNumber
    \<Rightarrow> JsNumber \<times> JsNumber \<times> JsNumber" where
  "cosineStep vecA vecB dimension acc =
     (case acc of (dotProduct, normA, normB) \<Rightarrow>
        (let a = Num (vecA dimension); b = Num (vecB dimension)
         in (jsAdd dotProduct (jsMul a b), jsAdd normA (jsMul a a), jsAdd normB (jsMul b b))))"

definition cosineSimilarity :: "UserVector \<Rightarrow> UserVector \<Rightarrow> JsNumber" where
  "cosineSimilarity vecA vecB =
     (case fold (cosineStep vecA vecB) VECTOR_DIMENSIONS (Num 0, Num 0, Num 0) of
        (dotProduct, normA, normB) \<Rightarrow>
          (let denominator = jsMul (jsSqrt normA) (jsSqrt normB)
           in if denominator = Num 0 then Num 0 else jsDiv dotProduct denominator))"

text \<open>
  The scores of the course builder are reals: a finite similarity is read as it is. A
  similarity that is not finite needs a preference beyond \<open>10 ^ 150\<close>; it is read as 0.
\<close>

fun numberValue :: "JsNumber \<Rightarrow> real" where
  "numberValue (Num x) = x"
| "numberValue PosInfinity = 0"
| "numberValue NegInfinity = 0"
| "numberValue NaN = 0"

definition calculateDiversityPenalty :: "Place \<Rightarrow> Place list \<Rightarrow> real" where
  "calculateDiversityPenalty place selectedPlaces =
     (if selectedPlaces = [] then 1.0
      else (let typeCount = length (filter (\<lambda>p. ptype p = ptype place) selectedPlaces)
            in 0.6 ^ typeCount))"

text \<open>The count \<open>calculateDiversityPenalty\<close> takes: selected places of the same type.\<close>

definition typeCount :: "Place \<Rightarrow> Place list \<Rightarrow> nat" where
  "typeCount place selectedPlaces = length (filter (\<lambda>p. ptype p = ptype place) selectedPlaces)"

definition travelMinutes :: "real \<Rightarrow> Transport \<Rightarrow> real" where
  "travelMinutes distanceKm transport =
     (if transport = Car
      then (let drivingTime = distanceKm * 3; parkingTime = 10
            in min 60 drivingTime + parkingTime)
      else min 90 (distanceKm * 12))"

text \<open>
  \<open>isIndoor(place)\<close> returns the flag when it is defined; \<open>Place.isIndoor\<close> is a required
  boolean, so the fallback on the place type is never reached.
\<close>

definition isIndoorPlace :: "Place \<Rightarrow> bool" where
  "isIndoorPlace place = isIndoor place"

definition calculateWeatherPenalty :: "bool \<Rightarrow> real \<Rightarrow> bool \<Rightarrow> real" where
  "calculateWeatherPenalty rainy temperature isOutdoor =
     (let penalty = 0;
          penalty = (if rainy then penalty + (if isOutdoor then - 200 else 30) else penalty);
          penalty = (if temperature > 30 \<or> temperature < 0
                     then penalty + (if isOutdoor then - 50 else 0) else penalty)
      in penalty)"

definition calculateDistancePenalty :: "real \<Rightarrow> Transport \<Rightarrow> real" where
  "calculateDistancePenalty distanceKm transport =
     (if transport = Foot
      then (if distanceKm > 1.5 then - 200
            else - max 0 ((exp (distanceKm / 5) - 1) * 30))
      else - max 0 ((exp (distanceKm / 10) - 1) * 20))"

definition calculateCompanionBonus :: "Place \<Rightarrow> Companion \<Rightarrow> real" where
  "calculateCompanionBonus place companion =
     (let nameLower = toLowerCase (name place);
          placeType = ptype place;
          inc = str_includes nameLower
      in case companion of
           Partner \<Rightarrow>
             (let bonus = 0;
                  bonus = (if placeType = Restaurant \<or> placeType = Cafe \<or> placeType = Bar
                           then bonus + 30 else bonus);
                  bonus = (if inc ''romantic'' \<or> inc ''date'' \<or> inc ''couple''
                           then bonus + 40 else bonus);
                  bonus = (if inc ''family'' \<or> inc ''kids'' \<or> inc ''playground''
                           then bonus - 50 else bonus)
              in bonus)
         | Family \<Rightarrow>
             (let bonus = 0;
                  bonus = (if isIndoor place then bonus + 20 else bonus);
                  bonus = (if placeType = Activity \<or> placeType = Landmark \<or> placeType = Shopping
                           then bonus + 25 else bonus);
                  bonus = (if placeType = Bar then bonus - 100 else bonus);
                  bonus = (if inc ''bar'' \<or> inc ''pub'' \<or> inc ''club''
                           then bonus - 80 else bonus)
              in bonus)
         | Friend \<Rightarrow>
             (if placeType = Cafe \<or> placeType = Activity \<or> placeType = Shopping then 20 else 0)
         | Solo \<Rightarrow>
             (if placeType = Cafe \<or> placeType = Culture \<or> placeType = Landmark then 15 else 0))"

definition KEYWORD_BONUS :: "string list" where
  "KEYWORD_BONUS = [''steak'', ''pasta'', ''sushi'', ''dining'', ''lounge'', ''bakery'']"

definition CHAIN_PENALTY :: "string list" where
  "CHAIN_PENALTY = [''bhc'', ''bbq'', ''lotteria'', ''mcdonald'', ''burger king'', ''gukbap'']"

definition calculateKeywordScore :: "Place \<Rightarrow> real" where
  "calculateKeywordScore place =
     (let nameLower = toLowerCase (name place);
          score = 0;
          score = (if list_ex (str_includes nameLower) KEYWORD_BONUS then score + 20 else score);
          score = (if list_ex (str_includes nameLower) CHAIN_PENALTY then score - 100 else score)
      in score)"

record ScoreContext =
  scUserVector :: UserVector
  scIsRainy :: bool
  scTemperature :: real
  scDistanceKm :: "real option"
  scSelectedPlaces :: "Place list option"
  scCompanion :: "Companion option"
  scTransport :: "Transport option"

definition calculatePlaceScore :: "Place \<Rightarrow> ScoreContext \<Rightarrow> real" where
  "calculatePlaceScore place context =
     (let placeVector = placeToFeatureVector place;
          similarityScore = numberValue (cosineSimilarity (scUserVector context) placeVector);
          baseScore = similarityScore * 100;
          diversityMultiplier =
            calculateDiversityPenalty place
              (case scSelectedPlaces context of None \<Rightarrow> [] | Some ps \<Rightarrow> ps);
          baseScore = baseScore * diversityMultiplier;
          outdoor = (\<not> isIndoorPlace place);
          weatherPenalty =
            calculateWeatherPenalty (scIsRainy context) (scTemperature context) outdoor;
          baseScore = baseScore + weatherPenalty;
          baseScore = baseScore + calculateKeywordScore place;
          baseScore = baseScore +
            calculateDistancePenalty
              (case scDistanceKm context of None \<Rightarrow> 0 | Some d \<Rightarrow> d)
              (case scTransport context of None \<Rightarrow> Foot | Some t \<Rightarrow> t);
          baseScore = (case scCompanion context of
                         None \<Rightarrow> baseScore
                       | Some c \<Rightarrow> baseScore + calculateCompanionBonus place c)
      in baseScore)"

section \<open>Distance (haversine.ts)\<close>

definition toRad :: "real \<Rightarrow> real" where
  "toRad degrees = degrees * (pi / 180)"

definition atan2 :: "real \<Rightarrow> real \<Rightarrow> real" where
  "atan2 y x =
     (if x > 0 then arctan (y / x)
      else if x < 0 then (if y \<ge> 0 then arctan (y / x) + pi else arctan (y / x) - pi)
      else if y > 0 then pi / 2
      else if y < 0 then - (pi / 2)
      else 0)"

definition haversineDistance :: "real \<Rightarrow> real \<Rightarrow> real \<Rightarrow> real \<Rightarrow> real" where
  "haversineDistance lat1 lng1 lat2 lng2 =
     (let R = 6371;
          dLat = toRad (lat2 - lat1);
          dLng = toRad (lng2 - lng1);
          a = sin (dLat / 2) * sin (dLat / 2) +
              cos (toRad lat1) * cos (toRad lat2) * sin (dLng / 2) * sin (dLng / 2);
          c = 2 * atan2 (sqrt a) (sqrt (1 - a))
      in R * c)"

section \<open>Dates\<close>

text \<open>
  A \<open>Date\<close> is its time value, the milliseconds since the epoch, an integer. The local
  time of day depends on the host's time zone: \<open>tz\<close> is its offset from UTC in
  milliseconds, taken as constant (no daylight saving change during a plan).
\<close>

type_synonym Date = int

definition toIntegerOrInfinity :: "real \<Rightarrow> int" where
  "toIntegerOrInfinity x = (if x < 0 then \<lceil>x\<rceil> else \<lfloor>x\<rfloor>)"

definition newDate :: "real \<Rightarrow> Date" where
  "newDate tv = toIntegerOrInfinity tv"

definition addMinutes :: "Date \<Rightarrow> real \<Rightarrow> Date" where
  "addMinutes date minutes = newDate (of_int date + minutes * 60000)"

definition getHours :: "int \<Rightarrow> Date \<Rightarrow> int" where
  "getHours tz date = ((date + tz) div 3600000) mod 24"

definition getMinutes :: "int \<Rightarrow> Date \<Rightarrow> int" where
  "getMinutes tz date = ((date + tz) div 60000) mod 60"

definition minutesSinceMidnight :: "int \<Rightarrow> Date \<Rightarrow> int" where
  "minutesSinceMidnight tz date = getHours tz date * 60 + getMinutes tz date"

text \<open>\<open>date.setHours(hour, minute, 0, 0)\<close>: the same local day, at that time of day.\<close>

definition setHours :: "int \<Rightarrow> Date \<Rightarrow> real \<Rightarrow> real \<Rightarrow> Date" where
  "setHours tz date hour minute =
     ((date + tz) div 86400000) * 86400000
       + (toIntegerOrInfinity hour * 3600000 + toIntegerOrInfinity minute * 60000) - tz"

text \<open>The \<open>%\<close> of JavaScript: the remainder has the sign of the dividend.\<close>

definition jsRemainder :: "real \<Rightarrow> real \<Rightarrow> real" where
  "jsRemainder x y = x - y * of_int (toIntegerOrInfinity (x / y))"

text \<open>\<open>place.estimatedDuration || fallback\<close>: an absent or zero duration is replaced.\<close>

definition durationOr :: "real option \<Rightarrow> real \<Rightarrow> real" where
  "durationOr d fallback = (case d of None \<Rightarrow> fallback | Some v \<Rightarrow> if v = 0 then fallback else v)"

section \<open>Steps and candidates (courseGenerator.ts)\<close>

record Window =
  startMinutes :: real
  endMinutes :: real

record MealWindows =
  lunch :: "Window option"
  dinner :: "Window option"

definition DEFAULT_LUNCH_WINDOW :: Window where
  "DEFAULT_LUNCH_WINDOW = \<lparr>startMinutes = 11 * 60 + 30, endMinutes = 13 * 60 + 30\<rparr>"

definition DEFAULT_DINNER_WINDOW :: Window where
  "DEFAULT_DINNER_WINDOW = \<lparr>startMinutes = 17 * 60, endMinutes = 19 * 60 + 30\<rparr>"

definition lunchWindowOf :: "MealWindows option \<Rightarrow> Window" where
  "lunchWindowOf mw =
     (case mw of None \<Rightarrow> DEFAULT_LUNCH_WINDOW
      | Some m \<Rightarrow> (case lunch m of None \<Rightarrow> DEFAULT_LUNCH_WINDOW | Some w \<Rightarrow> w))"

definition dinnerWindowOf :: "MealWindows option \<Rightarrow> Window" where
  "dinnerWindowOf mw =
     (case mw of None \<Rightarrow> DEFAULT_DINNER_WINDOW
      | Some m \<Rightarrow> (case dinner m of None \<Rightarrow> DEFAULT_DINNER_WINDOW | Some w \<Rightarrow> w))"

record StepDefinition =
  label :: string
  preferredTypes :: "PlaceType list"
  fallbackTypes :: "PlaceType list option"
  stepMealType :: "MealType option"
  window :: "Window option"

text \<open>\<open>validateWindow\<close>: \<open>None\<close> is \<open>{ ok: false }\<close>, \<open>Some startAt\<close> is \<open>{ ok: true, startAt }\<close>.\<close>

definition validateWindow :: "int \<Rightarrow> StepDefinition \<Rightarrow> Date \<Rightarrow> Date option" where
  "validateWindow tz step arriveAt =
     (case window step of
        None \<Rightarrow> Some arriveAt
      | Some w \<Rightarrow>
          (let arriveMinutes = minutesSinceMidnight tz arriveAt
           in if of_int arriveMinutes > endMinutes w then None
              else (let startMins = max (of_int arriveMinutes) (startMinutes w)
                    in Some (setHours tz arriveAt (of_int \<lfloor>startMins / 60\<rfloor>)
                               (jsRemainder startMins 60)))))"

definition isValidForStep :: "Place \<Rightarrow> StepDefinition \<Rightarrow> bool" where
  "isValidForStep place step =
     (if (stepMealType step = Some Lunch \<or> stepMealType step = Some Dinner)
         \<and> ptype place \<noteq> Restaurant then False
      else if stepMealType step = Some CafeMeal \<and> ptype place \<noteq> Cafe \<and> ptype place \<noteq> Bakery
      then False
      else True)"

record Candidate =
  cPlace :: Place
  cDistanceKm :: real
  cStartAt :: Date
  cEndAt :: Date
  cScore :: real

record Picked =
  pkPlace :: Place
  pkDistanceKm :: real
  pkStartAt :: Date
  pkEndAt :: Date

record PickContext =
  pcVisited :: "string set"
  pcUserVector :: UserVector
  pcIsRainy :: bool
  pcTemperature :: real
  pcCurrentTime :: Date
  pcCurrentPlace :: Place
  pcLockedSteps :: "(int \<rightharpoonup> Place) option"
  pcTransport :: "Transport option"
  pcCompanion :: "Companion option"
  pcSelectedPlaces :: "Place list option"

definition transportOrFoot :: "Transport option \<Rightarrow> Transport" where
  "transportOrFoot t = (case t of None \<Rightarrow> Foot | Some tr \<Rightarrow> tr)"

text \<open>The body of the scoring loop of \<open>pickCandidate\<close>; \<open>continue\<close> keeps \<open>best\<close>.\<close>

definition pickStep :: "int \<Rightarrow> StepDefinition \<Rightarrow> PickContext \<Rightarrow> Place \<Rightarrow> Candidate option \<Rightarrow> Candidate option" where
  "pickStep tz step context place best =
     (let distanceKm = haversineDistance (lat (pcCurrentPlace context)) (lng (pcCurrentPlace context))
                         (lat place) (lng place)
      in if pcTransport context = Some Foot \<and> distanceKm > 1.5 then best
         else (let arriveAt = addMinutes (pcCurrentTime context)
                                (travelMinutes distanceKm (transportOrFoot (pcTransport context)))
               in case validateWindow tz step arriveAt of
                    None \<Rightarrow> best
                  | Some startAt \<Rightarrow>
                      (let endAt = addMinutes startAt (durationOr (estimatedDuration place) 60);
                           score = calculatePlaceScore place
                             \<lparr>scUserVector = pcUserVector context,
                              scIsRainy = pcIsRainy context,
                              scTemperature = pcTemperature context,
                              scDistanceKm = Some distanceKm,
                              scSelectedPlaces =
                                Some (case pcSelectedPlaces context of None \<Rightarrow> [] | Some ps \<Rightarrow> ps),
                              scCompanion = pcCompanion context,
                              scTransport = pcTransport context\<rparr>
                       in if (case best of None \<Rightarrow> True | Some b \<Rightarrow> score > cScore b)
                          then Some \<lparr>cPlace = place, cDistanceKm = distanceKm,
                                     cStartAt = startAt, cEndAt = endAt, cScore = score\<rparr>
                          else best)))"

definition pickLocked :: "int \<Rightarrow> int \<Rightarrow> StepDefinition \<Rightarrow> PickContext \<Rightarrow> Picked option" where
  "pickLocked tz stepIndex step context =
     (case (case pcLockedSteps context of None \<Rightarrow> None | Some m \<Rightarrow> m (stepIndex + 1)) of
        None \<Rightarrow> None
      | Some locked \<Rightarrow>
          if placeId locked \<notin> pcVisited context \<and> isValidForStep locked step
          then (let distanceKm = haversineDistance (lat (pcCurrentPlace context))
                                   (lng (pcCurrentPlace context)) (lat locked) (lng locked);
                    arriveAt = addMinutes (pcCurrentTime context)
                                 (travelMinutes distanceKm (transportOrFoot (pcTransport context)))
                in case validateWindow tz step arriveAt of
                     None \<Rightarrow> None
                   | Some startAt \<Rightarrow>
                       (let endAt = addMinutes startAt (durationOr (estimatedDuration locked) 60)
                        in Some \<lparr>pkPlace = locked, pkDistanceKm = distanceKm,
                                  pkStartAt = startAt, pkEndAt = endAt\<rparr>))
          else None)"

definition pickCandidate :: "int \<Rightarrow> Place list \<Rightarrow> int \<Rightarrow> StepDefinition \<Rightarrow> PickContext \<Rightarrow> Picked option" where
  "pickCandidate tz allPlaces stepIndex step context =
     (case pickLocked tz stepIndex step context of
        Some r \<Rightarrow> Some r
      | None \<Rightarrow>
          (let candidates = filter
                 (\<lambda>p. placeId p \<notin> pcVisited context
                    \<and> (ptype p \<in> set (preferredTypes step)
                       \<or> ptype p \<in> set (case fallbackTypes step of None \<Rightarrow> [] | Some ts \<Rightarrow> ts))
                    \<and> isValidForStep p step
                    \<and> (stepMealType step = None \<or> mealType p = None
                       \<or> mealType p = stepMealType step))
                 allPlaces
           in if candidates = [] then None
              else (case fold (pickStep tz step context) candidates None of
                      None \<Rightarrow> None
                    | Some b \<Rightarrow> Some \<lparr>pkPlace = cPlace b, pkDistanceKm = cDistanceKm b,
                                       pkStartAt = cStartAt b, pkEndAt = cEndAt b\<rparr>)))"

record Found =
  fPlace :: Place
  fDistanceKm :: real
  fStartAt :: Date
  fEndAt :: Date
  fIsMeal :: bool

record TimeStep =
  tsPreferredTypes :: "PlaceType list"
  tsMealType :: "MealType option"
  tsWindow :: "Window option"
  tsIsMeal :: bool

text \<open>The kind of place \<open>findPlaceForTime\<close> looks for, from the time of day.\<close>

definition stepForTime :: "int \<Rightarrow> Date \<Rightarrow> MealWindows option \<Rightarrow> bool \<Rightarrow> bool \<Rightarrow> TimeStep" where
  "stepForTime tz currentTime mealWindows hasHadLunch hasHadDinner =
     (let currentMinutes = of_int (minutesSinceMidnight tz currentTime);
          lunchWindow = lunchWindowOf mealWindows;
          dinnerWindow = dinnerWindowOf mealWindows
      in if \<not> hasHadLunch \<and> currentMinutes \<ge> startMinutes lunchWindow
              \<and> currentMinutes \<le> endMinutes lunchWindow
         then \<lparr>tsPreferredTypes = [Restaurant], tsMealType = Some Lunch,
               tsWindow = Some lunchWindow, tsIsMeal = True\<rparr>
         else if \<not> hasHadDinner \<and> currentMinutes \<ge> startMinutes dinnerWindow
              \<and> currentMinutes \<le> endMinutes dinnerWindow
         then \<lparr>tsPreferredTypes = [Restaurant], tsMealType = Some Dinner,
               tsWindow = Some dinnerWindow, tsIsMeal = True\<rparr>
         else if currentMinutes > endMinutes lunchWindow
              \<and> currentMinutes < startMinutes dinnerWindow
         then \<lparr>tsPreferredTypes = [Cafe, Bakery], tsMealType = Some CafeMeal,
               tsWindow = None, tsIsMeal = False\<rparr>
         else \<lparr>tsPreferredTypes = [Activity, Cafe, Culture, Shopping], tsMealType = None,
               tsWindow = None, tsIsMeal = False\<rparr>)"

text \<open>The start of a visit at a place reached at \<open>arriveAt\<close>; \<open>None\<close> when the window is over.\<close>

definition startInWindow :: "int \<Rightarrow> Window option \<Rightarrow> Date \<Rightarrow> Date option" where
  "startInWindow tz win arriveAt =
     (case win of
        None \<Rightarrow> Some arriveAt
      | Some w \<Rightarrow>
          (let arriveMinutes = minutesSinceMidnight tz arriveAt
           in if of_int arriveMinutes > endMinutes w then None
              else (let startMins = max (of_int arriveMinutes) (startMinutes w)
                    in Some (setHours tz arriveAt (of_int \<lfloor>startMins / 60\<rfloor>)
                               (jsRemainder startMins 60)))))"

text \<open>The body of the scoring loop of \<open>findPlaceForTime\<close>; \<open>continue\<close> keeps \<open>best\<close>.\<close>

definition findStep ::
  "int \<Rightarrow> Date \<Rightarrow> Place \<Rightarrow> Transport \<Rightarrow> real \<Rightarrow> Date option \<Rightarrow> Window option \<Rightarrow> UserVector
    \<Rightarrow> Place list \<Rightarrow> Companion option \<Rightarrow> bool option \<Rightarrow> real option
    \<Rightarrow> Place \<Rightarrow> Candidate option \<Rightarrow> Candidate option" where
  "findStep tz currentTime fromPlace transport baseDuration maxEndTime win userVector
      selectedPlaces companion rainy temperature place best =
     (let distanceKm = haversineDistance (lat fromPlace) (lng fromPlace) (lat place) (lng place)
      in if transport = Foot \<and> distanceKm > 1.5 then best
         else (let travelTime = travelMinutes distanceKm transport;
                   arriveAt = addMinutes currentTime travelTime
               in case startInWindow tz win arriveAt of
                    None \<Rightarrow> best
                  | Some startAt \<Rightarrow>
                      (let endAt = addMinutes startAt
                                     (durationOr (estimatedDuration place) baseDuration)
                       in if (case maxEndTime of None \<Rightarrow> False | Some m \<Rightarrow> endAt > m) then best
                          else (let score = calculatePlaceScore place
                                      \<lparr>scUserVector = userVector,
                                       scIsRainy = (case rainy of None \<Rightarrow> False | Some r \<Rightarrow> r),
                                       scTemperature =
                                         (case temperature of None \<Rightarrow> 20 | Some t \<Rightarrow> t),
                                       scDistanceKm = Some distanceKm,
                                       scSelectedPlaces = Some selectedPlaces,
                                       scCompanion = companion,
                                       scTransport = Some transport\<rparr>
                                in if (case best of None \<Rightarrow> True | Some b \<Rightarrow> score > cScore b)
                                   then Some \<lparr>cPlace = place, cDistanceKm = distanceKm,
                                              cStartAt = startAt, cEndAt = endAt,
                                              cScore = score\<rparr>
                                   else best))))"

definition findPlaceForTime ::
  "int \<Rightarrow> Date \<Rightarrow> Place \<Rightarrow> Place list \<Rightarrow> string set \<Rightarrow> MealWindows option \<Rightarrow> Transport
    \<Rightarrow> real \<Rightarrow> Date option \<Rightarrow> bool \<Rightarrow> bool \<Rightarrow> UserVector \<Rightarrow> Place list
    \<Rightarrow> Companion option \<Rightarrow> bool option \<Rightarrow> real option \<Rightarrow> Found option" where
  "findPlaceForTime tz currentTime fromPlace allPlaces visitedIds mealWindows transport
      baseDuration maxEndTime hasHadLunch hasHadDinner userVector selectedPlaces
      companion rainy temperature =
     (let ts = stepForTime tz currentTime mealWindows hasHadLunch hasHadDinner;
          candidates = filter
            (\<lambda>p. placeId p \<notin> visitedIds
               \<and> (if tsIsMeal ts
                  then ptype p \<in> set (tsPreferredTypes ts)
                       \<and> (tsMealType ts = None \<or> mealType p = None \<or> mealType p = tsMealType ts)
                  else ptype p \<in> set (tsPreferredTypes ts) \<and> ptype p \<noteq> Restaurant))
            allPlaces
      in if candidates = [] then None
         else (case fold (findStep tz currentTime fromPlace transport baseDuration maxEndTime
                            (tsWindow ts) userVector selectedPlaces companion rainy temperature)
                      candidates None of
                 None \<Rightarrow> None
               | Some best \<Rightarrow>
                   Some \<lparr>fPlace = cPlace best, fDistanceKm = cDistanceKm best,
                         fStartAt = cStartAt best, fEndAt = cEndAt best,
                         fIsMeal = tsIsMeal ts\<rparr>))"

section \<open>The itinerary builder (courseGenerator.ts)\<close>

record Weather =
  temp :: real
  isRainy :: bool

text \<open>
  \<open>userPreferences\<close> is either the legacy \<open>PreferenceWeights\<close> or a \<open>UserVector\<close>; both are
  objects with number-valued properties, here a map from property name to value.
\<close>

record CourseGenerationOptions =
  startLocation :: "Place option"
  userPreferences :: "string \<rightharpoonup> real"
  weather :: Weather
  startTime :: Date
  endLocation :: "Place option"
  endTime :: "Date option"
  mustVisitPlaces :: "Place list option"
  lockedSteps :: "(int \<rightharpoonup> Place) option"
  mealWindows :: "MealWindows option"
  companion :: "Companion option"
  transport :: "Transport option"
  intensity :: "Intensity option"
  duration :: "real option"

record CourseStep =
  place :: Place
  stepStartTime :: Date
  stepEndTime :: Date
  travelTime :: real

record GeneratedCourse =
  sequence :: "Place list"
  steps :: "CourseStep list"
  totalDistance :: real
  estimatedDurationMin :: int

datatype JsError = ReferenceError string

definition dimensionName :: "VectorDimension \<Rightarrow> string" where
  "dimensionName d =
     (case d of Meat \<Rightarrow> ''Meat'' | Seafood \<Rightarrow> ''Seafood'' | Noodle \<Rightarrow> ''Noodle''
      | Rice \<Rightarrow> ''Rice'' | Bread \<Rightarrow> ''Bread'' | Quiet \<Rightarrow> ''Quiet'' | Active \<Rightarrow> ''Active''
      | Indoor \<Rightarrow> ''Indoor'' | Nature \<Rightarrow> ''Nature'' | Luxury \<Rightarrow> ''Luxury'')"

definition isUserVector :: "(string \<rightharpoonup> real) \<Rightarrow> bool" where
  "isUserVector prefs = list_all (\<lambda>d. prefs (dimensionName d) \<noteq> None) VECTOR_DIMENSIONS"

text \<open>Reading a vector out of the object: \<open>vec[dim] || 0\<close>.\<close>

definition asUserVector :: "(string \<rightharpoonup> real) \<Rightarrow> UserVector" where
  "asUserVector prefs = (\<lambda>d. case prefs (dimensionName d) of None \<Rightarrow> 0 | Some v \<Rightarrow> v)"

text \<open>
  \<open>convertToUserVector\<close> returns a complete vector as it is. For legacy preferences its
  first statement reads \<open>INITIAL_USER_VECTOR\<close>, which courseGenerator.ts does not import
  (its import of UserPreferenceModel names \<open>PreferenceWeights\<close>, \<open>UserVector\<close>,
  \<open>VECTOR_DIMENSIONS\<close> and \<open>placeToFeatureVector\<close> only): the read throws.
\<close>

definition convertToUserVector :: "(string \<rightharpoonup> real) \<Rightarrow> JsError + UserVector" where
  "convertToUserVector prefs =
     (if isUserVector prefs then Inr (asUserVector prefs)
      else Inl (ReferenceError ''INITIAL_USER_VECTOR''))"

text \<open>The constants of one call of \<open>generateCourse\<close>, and its mutable locals.\<close>

record GenEnv =
  envTz :: int
  allPlaces :: "Place list"
  envMealWindows :: "MealWindows option"
  envTransport :: Transport
  baseDuration :: real
  maxEndTime :: Date
  userVector :: UserVector
  envCompanion :: Companion
  envWeather :: Weather
  targetEndLocation :: "Place option"

record GenState =
  sequenceAcc :: "Place list"
  courseSteps :: "CourseStep list"
  visited :: "string set"
  selectedPlaces :: "Place list"
  totalDistanceAcc :: real
  currentPlace :: Place
  currentTime :: Date
  hasHadLunch :: bool
  hasHadDinner :: bool

text \<open>The call of \<open>findPlaceForTime\<close>, the same in the anchor phase and in the fill phase.\<close>

definition findNext :: "GenEnv \<Rightarrow> GenState \<Rightarrow> Found option" where
  "findNext e s =
     findPlaceForTime (envTz e) (currentTime s) (currentPlace s) (allPlaces e) (visited s)
       (envMealWindows e) (envTransport e) (baseDuration e) (Some (maxEndTime e))
       (hasHadLunch s) (hasHadDinner s) (userVector e) (selectedPlaces s)
       (Some (envCompanion e)) (Some (isRainy (envWeather e))) (Some (temp (envWeather e)))"

text \<open>Appending a place found by \<open>findPlaceForTime\<close> (an intermediate stop or a fill stop).\<close>

definition appendFound :: "GenEnv \<Rightarrow> Found \<Rightarrow> GenState \<Rightarrow> GenState" where
  "appendFound e found s =
     s\<lparr>sequenceAcc := sequenceAcc s @ [fPlace found],
       selectedPlaces := selectedPlaces s @ [fPlace found],
       courseSteps := courseSteps s @
         [\<lparr>place = fPlace found, stepStartTime = fStartAt found, stepEndTime = fEndAt found,
           travelTime = travelMinutes (fDistanceKm found) (envTransport e)\<rparr>],
       totalDistanceAcc := totalDistanceAcc s + fDistanceKm found,
       visited := insert (placeId (fPlace found)) (visited s),
       currentPlace := fPlace found,
       currentTime := fEndAt found,
       hasHadLunch := (if fIsMeal found \<and> mealType (fPlace found) = Some Lunch
                       then True else hasHadLunch s),
       hasHadDinner := (if fIsMeal found \<and> mealType (fPlace found) \<noteq> Some Lunch
                           \<and> mealType (fPlace found) = Some Dinner
                        then True else hasHadDinner s)\<rparr>"

text \<open>
  Going to the anchor in one hop; the loop around it ends either way. \<open>track\<close> tells
  whether the anchor joins \<open>selectedPlaces\<close>: it does when the hop is within reach, it does
  not when the hop is made because no intermediate stop was found.
\<close>

definition connectAnchor :: "GenEnv \<Rightarrow> Place \<Rightarrow> real \<Rightarrow> bool \<Rightarrow> GenState \<Rightarrow> GenState" where
  "connectAnchor e anchor distanceToAnchor track s =
     (let travelTm = travelMinutes distanceToAnchor (envTransport e);
          arriveAt = addMinutes (currentTime s) travelTm;
          endAt = addMinutes arriveAt (durationOr (estimatedDuration anchor) (baseDuration e))
      in if endAt > maxEndTime e then s
         else (let currentMinutes = of_int (minutesSinceMidnight (envTz e) arriveAt);
                   lunchWindow = lunchWindowOf (envMealWindows e);
                   dinnerWindow = dinnerWindowOf (envMealWindows e);
                   isLunch = (ptype anchor = Restaurant \<and> \<not> hasHadLunch s
                              \<and> currentMinutes \<ge> startMinutes lunchWindow
                              \<and> currentMinutes \<le> endMinutes lunchWindow);
                   isDinner = (ptype anchor = Restaurant \<and> \<not> isLunch \<and> \<not> hasHadDinner s
                               \<and> currentMinutes \<ge> startMinutes dinnerWindow
                               \<and> currentMinutes \<le> endMinutes dinnerWindow)
               in s\<lparr>sequenceAcc := sequenceAcc s @ [anchor],
                     selectedPlaces := (if track then selectedPlaces s @ [anchor]
                                        else selectedPlaces s),
                     courseSteps := courseSteps s @
                       [\<lparr>place = anchor, stepStartTime = arriveAt, stepEndTime = endAt,
                         travelTime = travelTm\<rparr>],
                     totalDistanceAcc := totalDistanceAcc s + distanceToAnchor,
                     visited := insert (placeId anchor) (visited s),
                     currentPlace := anchor,
                     currentTime := endAt,
                     hasHadLunch := (if isLunch then True else hasHadLunch s),
                     hasHadDinner := (if isDinner then True else hasHadDinner s)\<rparr>))"

text \<open>
  Appending the end location when it is unvisited and reached by the maximum end time. The
  two uses inside the loops add it to \<open>visited\<close>; the last one, after the loops, does not.
\<close>

definition appendEndLocation :: "GenEnv \<Rightarrow> bool \<Rightarrow> GenState \<Rightarrow> GenState" where
  "appendEndLocation e markVisited s =
     (case targetEndLocation e of
        None \<Rightarrow> s
      | Some target \<Rightarrow>
          if placeId target \<in> visited s then s
          else (let distanceToEnd = haversineDistance (lat (currentPlace s)) (lng (currentPlace s))
                                      (lat target) (lng target);
                    travelTm = travelMinutes distanceToEnd (envTransport e);
                    arriveAt = addMinutes (currentTime s) travelTm
                in if arriveAt \<le> maxEndTime e
                   then s\<lparr>sequenceAcc := sequenceAcc s @ [target],
                           courseSteps := courseSteps s @
                             [\<lparr>place = target, stepStartTime = arriveAt, stepEndTime = arriveAt,
                               travelTime = travelTm\<rparr>],
                           totalDistanceAcc := totalDistanceAcc s + distanceToEnd,
                           visited := (if markVisited then insert (placeId target) (visited s)
                                       else visited s)\<rparr>
                   else s))"

text \<open>The inner loop \<open>while (currentPlace.id !== anchor.id)\<close> of the anchor phase.\<close>

function anchorWhile :: "GenEnv \<Rightarrow> Place \<Rightarrow> GenState \<Rightarrow> GenState" where
  "anchorWhile e anchor s =
     (if placeId (currentPlace s) = placeId anchor then s
      else (let distanceToAnchor = haversineDistance (lat (currentPlace s)) (lng (currentPlace s))
                                     (lat anchor) (lng anchor)
            in if envTransport e = Foot \<and> distanceToAnchor > 1.5
               then (case findNext e s of
                       None \<Rightarrow> connectAnchor e anchor distanceToAnchor False s
                     | Some intermediate \<Rightarrow>
                         (let s' = appendFound e intermediate s
                          in if currentTime s' \<ge> maxEndTime e then s'
                             else anchorWhile e anchor s'))
               else connectAnchor e anchor distanceToAnchor True s))"
  by pat_completeness auto

text \<open>The loop over the anchors; its \<open>break\<close> is the branch that stops the recursion.\<close>

fun anchorFor :: "GenEnv \<Rightarrow> Place list \<Rightarrow> GenState \<Rightarrow> GenState" where
  "anchorFor e [] s = s"
| "anchorFor e (anchor # rest) s =
     (if placeId anchor \<in> visited s then anchorFor e rest s
      else if currentTime s \<ge> maxEndTime e then appendEndLocation e True s
      else anchorFor e rest (anchorWhile e anchor s))"

text \<open>The fill phase \<open>while (currentTime < targetEndTime)\<close>.\<close>

function fillLoop :: "GenEnv \<Rightarrow> GenState \<Rightarrow> GenState" where
  "fillLoop e s =
     (if \<not> currentTime s < maxEndTime e then s
      else (let remainingMinutes = (of_int (maxEndTime e) - of_int (currentTime s)) / (60000::real)
            in if remainingMinutes < 30 then s
               else (case findNext e s of
                       None \<Rightarrow> s
                     | Some nextPlace \<Rightarrow>
                         if fEndAt nextPlace > maxEndTime e then appendEndLocation e True s
                         else fillLoop e (appendFound e nextPlace s))))"
  by pat_completeness auto

definition durationHours :: "CourseGenerationOptions \<Rightarrow> real" where
  "durationHours options = (case duration options of None \<Rightarrow> 6 | Some d \<Rightarrow> d)"

text \<open>The effective maximum end time: the earlier of \<open>endTime\<close> and start plus duration.\<close>

definition effectiveMaxEndTime :: "CourseGenerationOptions \<Rightarrow> Date" where
  "effectiveMaxEndTime options =
     (let durationEndTime = addMinutes (startTime options) (durationHours options * 60)
      in case endTime options of
           None \<Rightarrow> durationEndTime
         | Some et \<Rightarrow> min et durationEndTime)"

definition anchorsToVisit :: "CourseGenerationOptions \<Rightarrow> Place list" where
  "anchorsToVisit options =
     (let mustVisit = (case mustVisitPlaces options of None \<Rightarrow> [] | Some ps \<Rightarrow> ps)
      in case endLocation options of
           None \<Rightarrow> mustVisit
         | Some target \<Rightarrow>
             if find (\<lambda>p. placeId p = placeId target) mustVisit = None
             then mustVisit @ [target] else mustVisit)"

definition genEnv :: "int \<Rightarrow> Place list \<Rightarrow> CourseGenerationOptions \<Rightarrow> UserVector \<Rightarrow> GenEnv" where
  "genEnv tz pool options uv =
     \<lparr>envTz = tz,
      allPlaces = pool,
      envMealWindows = mealWindows options,
      envTransport = (case transport options of None \<Rightarrow> Foot | Some t \<Rightarrow> t),
      baseDuration = (if (case intensity options of None \<Rightarrow> Relaxed | Some i \<Rightarrow> i) = Relaxed
                      then 90 else 60),
      maxEndTime = effectiveMaxEndTime options,
      userVector = uv,
      envCompanion = (case companion options of None \<Rightarrow> Solo | Some c \<Rightarrow> c),
      envWeather = weather options,
      targetEndLocation = endLocation options\<rparr>"

definition initialState :: "Place \<Rightarrow> Date \<Rightarrow> GenState" where
  "initialState start t0 =
     \<lparr>sequenceAcc = [start],
      courseSteps = [\<lparr>place = start, stepStartTime = t0, stepEndTime = t0, travelTime = 0\<rparr>],
      visited = {placeId start},
      selectedPlaces = [start],
      totalDistanceAcc = 0,
      currentPlace = start,
      currentTime = t0,
      hasHadLunch = False,
      hasHadDinner = False\<rparr>"

definition finishCourse :: "Date \<Rightarrow> GenState \<Rightarrow> GeneratedCourse" where
  "finishCourse t0 s =
     (let finalTime = (if courseSteps s \<noteq> [] then stepEndTime (last (courseSteps s))
                       else currentTime s);
          estimated = \<lfloor>(of_int finalTime - of_int t0) / (60000::real) + 1 / 2\<rfloor>
      in \<lparr>sequence = sequenceAcc s,
          steps = courseSteps s,
          totalDistance = of_int \<lfloor>totalDistanceAcc s * 10 + 1 / 2\<rfloor> / 10,
          estimatedDurationMin = estimated\<rparr>)"

text \<open>
  \<open>generateCourse\<close>: \<open>Inr None\<close> is the \<open>null\<close> result, \<open>Inr (Some course)\<close> a returned
  itinerary, \<open>Inl err\<close> an exception. The option \<open>lockedSteps\<close> is taken out of the options
  and never read again.
\<close>

definition generateCourse ::
  "int \<Rightarrow> Place list \<Rightarrow> CourseGenerationOptions \<Rightarrow> JsError + GeneratedCourse option" where
  "generateCourse tz pool options =
     (case startLocation options of
        None \<Rightarrow> Inr None
      | Some start \<Rightarrow>
          (case convertToUserVector (userPreferences options) of
             Inl err \<Rightarrow> Inl err
           | Inr uv \<Rightarrow>
               (let e = genEnv tz pool options uv;
                    s0 = initialState start (startTime options);
                    s1 = anchorFor e (anchorsToVisit options) s0;
                    s2 = fillLoop e s1;
                    s3 = appendEndLocation e False s2
                in Inr (Some (finishCourse (startTime options) s3)))))"

section \<open>The loops terminate\<close>

lemma findStep_cases:
  assumes "findStep tz ct fp tr bd (Some m) w uv sel co r t p best = Some b"
  shows "best = Some b \<or>
         (cPlace b = p \<and> cEndAt b \<le> m
          \<and> cDistanceKm b = haversineDistance (lat fp) (lng fp) (lat p) (lng p)
          \<and> (tr = Foot \<longrightarrow> cDistanceKm b \<le> 1.5))"
  using assms
  by (auto simp: findStep_def Let_def split: if_splits option.splits)

lemma findStep_fold:
  assumes "fold (findStep tz ct fp tr bd (Some m) w uv sel co r t) cands best = Some b"
  shows "best = Some b \<or>
         (cPlace b \<in> set cands \<and> cEndAt b \<le> m
          \<and> cDistanceKm b = haversineDistance (lat fp) (lng fp) (lat (cPlace b)) (lng (cPlace b))
          \<and> (tr = Foot \<longrightarrow> cDistanceKm b \<le> 1.5))"
  using assms
proof (induction cands arbitrary: best)
  case Nil
  then show ?case by simp
next
  case (Cons p ps)
  from Cons.prems have
    "fold (findStep tz ct fp tr bd (Some m) w uv sel co r t) ps
       (findStep tz ct fp tr bd (Some m) w uv sel co r t p best) = Some b"
    by simp
  from Cons.IH[OF this] show ?case
    using findStep_cases[of tz ct fp tr bd m w uv sel co r t p best b] by auto
qed

lemma findNext_props:
  assumes "findNext e s = Some f"
  shows "fPlace f \<in> set (allPlaces e)" and "placeId (fPlace f) \<notin> visited s"
    and "fEndAt f \<le> maxEndTime e"
    and "fDistanceKm f = haversineDistance (lat (currentPlace s)) (lng (currentPlace s))
           (lat (fPlace f)) (lng (fPlace f))"
    and "envTransport e = Foot \<Longrightarrow> fDistanceKm f \<le> 1.5"
  using assms
  unfolding findNext_def findPlaceForTime_def Let_def
  by (auto split: if_splits option.splits dest!: findStep_fold)

lemma unvisited_decreases:
  assumes "q \<in> set pool" and "placeId q \<notin> V"
  shows "length (filter (\<lambda>p. placeId p \<notin> insert (placeId q) V) pool)
         < length (filter (\<lambda>p. placeId p \<notin> V) pool)"
proof -
  have "filter (\<lambda>p. placeId p \<notin> insert (placeId q) V) pool
        = filter (\<lambda>p. placeId p \<noteq> placeId q) (filter (\<lambda>p. placeId p \<notin> V) pool)"
    by (simp add: conj_commute)
  moreover have "q \<in> set (filter (\<lambda>p. placeId p \<notin> V) pool)"
    using assms by simp
  ultimately show ?thesis
    using length_filter_less[of q "filter (\<lambda>p. placeId p \<notin> V) pool" "\<lambda>p. placeId p \<noteq> placeId q"]
    by simp
qed

lemma appendFound_measure:
  assumes "findNext e s = Some f"
  shows "length (filter (\<lambda>p. placeId p \<notin> visited (appendFound e f s)) (allPlaces e))
         < length (filter (\<lambda>p. placeId p \<notin> visited s) (allPlaces e))"
  using unvisited_decreases[OF findNext_props(1)[OF assms] findNext_props(2)[OF assms]]
  by (simp add: appendFound_def)

termination anchorWhile
  by (relation "measure (\<lambda>(e, anchor, s). length (filter (\<lambda>p. placeId p \<notin> visited s) (allPlaces e)))")
     (simp_all add: appendFound_measure)

termination fillLoop
  by (relation "measure (\<lambda>(e, s). length (filter (\<lambda>p. placeId p \<notin> visited s) (allPlaces e)))")
     (simp_all add: appendFound_measure)

declare anchorWhile.simps [simp del]
declare fillLoop.simps [simp del]

section \<open>Rules for the loops\<close>

text \<open>
  An invariant kept by every branch of a loop body holds when the loop ends. The loops
  end because each round visits one more place of the pool.
\<close>

definition distanceTo :: "GenState \<Rightarrow> Place \<Rightarrow> real" where
  "distanceTo s p = haversineDistance (lat (currentPlace s)) (lng (currentPlace s)) (lat p) (lng p)"

definition unvisitedCount :: "GenEnv \<Rightarrow> GenState \<Rightarrow> nat" where
  "unvisitedCount e s = length (filter (\<lambda>p. placeId p \<notin> visited s) (allPlaces e))"

lemma anchorWhile_unfold:
  "anchorWhile e anchor s =
     (if placeId (currentPlace s) = placeId anchor then s
      else if envTransport e = Foot \<and> distanceTo s anchor > 1.5
      then (case findNext e s of
              None \<Rightarrow> connectAnchor e anchor (distanceTo s anchor) False s
            | Some f \<Rightarrow>
                if currentTime (appendFound e f s) \<ge> maxEndTime e then appendFound e f s
                else anchorWhile e anchor (appendFound e f s))
      else connectAnchor e anchor (distanceTo s anchor) True s)"
  by (subst anchorWhile.simps) (auto simp: Let_def distanceTo_def split: option.split)

text \<open>
  On foot, with the anchor beyond 1.5 km and a candidate at hand, the loop takes the
  candidate as an intermediate stop; it hops to the far anchor only when there is none.
\<close>

lemma anchorWhile_far_with_candidate:
  assumes "placeId (currentPlace s) \<noteq> placeId anchor" and "envTransport e = Foot"
    and "distanceTo s anchor > 1.5" and "findNext e s = Some f"
  shows "anchorWhile e anchor s =
           (if currentTime (appendFound e f s) \<ge> maxEndTime e then appendFound e f s
            else anchorWhile e anchor (appendFound e f s))"
  using assms by (subst anchorWhile_unfold) simp

lemma anchorWhile_far_without_candidate:
  assumes "placeId (currentPlace s) \<noteq> placeId anchor" and "envTransport e = Foot"
    and "distanceTo s anchor > 1.5" and "findNext e s = None"
  shows "anchorWhile e anchor s = connectAnchor e anchor (distanceTo s anchor) False s"
  using assms by (subst anchorWhile_unfold) simp

lemma anchorWhile_rule:
  assumes init: "P s"
    and step: "\<And>s f. P s \<Longrightarrow> placeId (currentPlace s) \<noteq> placeId anchor
                 \<Longrightarrow> findNext e s = Some f \<Longrightarrow> P (appendFound e f s)"
    and far: "\<And>s. P s \<Longrightarrow> placeId (currentPlace s) \<noteq> placeId anchor
                 \<Longrightarrow> P (connectAnchor e anchor (distanceTo s anchor) False s)"
    and near: "\<And>s. P s \<Longrightarrow> placeId (currentPlace s) \<noteq> placeId anchor
                 \<Longrightarrow> \<not> (envTransport e = Foot \<and> distanceTo s anchor > 1.5)
                 \<Longrightarrow> P (connectAnchor e anchor (distanceTo s anchor) True s)"
  shows "P (anchorWhile e anchor s)"
  using init
proof (induction "unvisitedCount e s" arbitrary: s rule: less_induct)
  case less
  show ?case
  proof (cases "placeId (currentPlace s) = placeId anchor")
    case True
    then show ?thesis using less.prems by (subst anchorWhile_unfold) simp
  next
    case ne: False
    show ?thesis
    proof (cases "envTransport e = Foot \<and> distanceTo s anchor > 1.5")
      case False
      then show ?thesis
        using ne near[OF less.prems ne] by (subst anchorWhile_unfold) auto
    next
      case isfar: True
      show ?thesis
      proof (cases "findNext e s")
        case None
        then show ?thesis
          using ne isfar far[OF less.prems ne] by (subst anchorWhile_unfold) simp
      next
        case (Some f)
        have P': "P (appendFound e f s)" using step[OF less.prems ne Some] .
        have dec: "unvisitedCount e (appendFound e f s) < unvisitedCount e s"
          using appendFound_measure[OF Some] by (simp add: unvisitedCount_def)
        show ?thesis
          using ne isfar Some P' less.hyps[OF dec P']
          by (subst anchorWhile_unfold) simp
      qed
    qed
  qed
qed

lemma fillLoop_rule:
  assumes init: "P s"
    and step: "\<And>s f. P s \<Longrightarrow> currentTime s < maxEndTime e \<Longrightarrow> findNext e s = Some f
                 \<Longrightarrow> P (appendFound e f s)"
    and fin: "\<And>s. P s \<Longrightarrow> currentTime s < maxEndTime e \<Longrightarrow> Q (appendEndLocation e True s)"
    and post: "\<And>s. P s \<Longrightarrow> Q s"
  shows "Q (fillLoop e s)"
  using init
proof (induction "unvisitedCount e s" arbitrary: s rule: less_induct)
  case less
  show ?case
  proof (cases "findNext e s")
    case None
    then show ?thesis using post[OF less.prems] by (subst fillLoop.simps) (simp add: Let_def)
  next
    case (Some f)
    have dec: "unvisitedCount e (appendFound e f s) < unvisitedCount e s"
      using appendFound_measure[OF Some] by (simp add: unvisitedCount_def)
    show ?thesis
    proof (cases "currentTime s < maxEndTime e")
      case False
      then show ?thesis using post[OF less.prems] by (subst fillLoop.simps) simp
    next
      case True
      then show ?thesis
        using Some post[OF less.prems] fin[OF less.prems True]
          less.hyps[OF dec step[OF less.prems True Some]]
        by (subst fillLoop.simps) (simp add: Let_def)
    qed
  qed
qed

lemma anchorFor_rule:
  assumes init: "P s"
    and loop: "\<And>s anchor. P s \<Longrightarrow> anchor \<in> set anchors \<Longrightarrow> placeId anchor \<notin> visited s
                 \<Longrightarrow> currentTime s < maxEndTime e \<Longrightarrow> P (anchorWhile e anchor s)"
    and brk: "\<And>s. P s \<Longrightarrow> currentTime s \<ge> maxEndTime e \<Longrightarrow> Q (appendEndLocation e True s)"
    and post: "\<And>s. P s \<Longrightarrow> Q s"
  shows "Q (anchorFor e anchors s)"
  using init loop
proof (induction anchors arbitrary: s)
  case Nil
  then show ?case using post by simp
next
  case (Cons a rest)
  show ?case
  proof (cases "placeId a \<in> visited s")
    case True
    then show ?thesis using Cons.IH[OF Cons.prems(1)] Cons.prems(2) by simp
  next
    case nv: False
    show ?thesis
    proof (cases "currentTime s \<ge> maxEndTime e")
      case True
      then show ?thesis using nv brk[OF Cons.prems(1)] by simp
    next
      case False
      have "P (anchorWhile e a s)" using Cons.prems(2)[OF Cons.prems(1) _ nv] False by simp
      from Cons.IH[OF this] show ?thesis using nv False Cons.prems(2) by simp
    qed
  qed
qed

section \<open>Invariants of the builder\<close>

text \<open>Distinct ids: the sequence has no repeated id, and every id in it is visited.\<close>

definition idsDistinct :: "GenState \<Rightarrow> bool" where
  "idsDistinct s =
     (distinct (map placeId (sequenceAcc s))
      \<and> set (map placeId (sequenceAcc s)) \<subseteq> visited s
      \<and> map place (courseSteps s) = sequenceAcc s)"

lemma idsDistinct_appendFound:
  "idsDistinct s \<Longrightarrow> findNext e s = Some f \<Longrightarrow> idsDistinct (appendFound e f s)"
  using findNext_props(2)[of e s f]
  by (auto simp: idsDistinct_def appendFound_def)

lemma idsDistinct_connectAnchor:
  "idsDistinct s \<Longrightarrow> placeId anchor \<notin> visited s \<Longrightarrow> idsDistinct (connectAnchor e anchor d tr s)"
  by (auto simp: idsDistinct_def connectAnchor_def Let_def)

lemma idsDistinct_appendEnd:
  "idsDistinct s \<Longrightarrow> idsDistinct (appendEndLocation e True s)"
  by (auto simp: idsDistinct_def appendEndLocation_def Let_def split: option.splits)

lemma idsDistinct_anchorWhile:
  assumes "idsDistinct s" and "placeId anchor \<notin> visited s"
  shows "idsDistinct (anchorWhile e anchor s)"
proof -
  let ?P = "\<lambda>s. idsDistinct s
              \<and> (placeId anchor \<notin> visited s \<or> placeId (currentPlace s) = placeId anchor)"
  have "?P (anchorWhile e anchor s)"
  proof (rule anchorWhile_rule[where P = ?P])
    show "?P s" using assms by simp
  next
    fix s f
    assume "?P s" "placeId (currentPlace s) \<noteq> placeId anchor" "findNext e s = Some f"
    then show "?P (appendFound e f s)"
      using idsDistinct_appendFound[of s e f] by (auto simp: appendFound_def)
  next
    fix s
    assume "?P s" "placeId (currentPlace s) \<noteq> placeId anchor"
    then show "?P (connectAnchor e anchor (distanceTo s anchor) False s)"
      using idsDistinct_connectAnchor[of s anchor e "distanceTo s anchor" False]
      by (auto simp: connectAnchor_def Let_def)
  next
    fix s
    assume "?P s" "placeId (currentPlace s) \<noteq> placeId anchor"
    then show "?P (connectAnchor e anchor (distanceTo s anchor) True s)"
      using idsDistinct_connectAnchor[of s anchor e "distanceTo s anchor" True]
      by (auto simp: connectAnchor_def Let_def)
  qed
  then show ?thesis by simp
qed

lemma idsDistinct_anchorFor:
  assumes "idsDistinct s"
  shows "idsDistinct (anchorFor e anchors s)"
  by (rule anchorFor_rule[where P = idsDistinct and Q = idsDistinct, OF assms])
     (simp_all add: idsDistinct_anchorWhile idsDistinct_appendEnd)

lemma idsDistinct_fillLoop:
  assumes "idsDistinct s"
  shows "idsDistinct (fillLoop e s)"
  by (rule fillLoop_rule[where P = idsDistinct and Q = idsDistinct, OF assms])
     (simp_all add: idsDistinct_appendFound idsDistinct_appendEnd)

lemma idsDistinct_final:
  assumes "idsDistinct s"
  shows "distinct (map placeId (sequenceAcc (appendEndLocation e False s)))
         \<and> map place (courseSteps (appendEndLocation e False s))
             = sequenceAcc (appendEndLocation e False s)"
  using assms
  by (auto simp: idsDistinct_def appendEndLocation_def Let_def split: option.splits)

lemma idsDistinct_initial: "idsDistinct (initialState start t0)"
  by (simp add: idsDistinct_def initialState_def)

lemma generateCourse_Some:
  assumes "generateCourse tz pool options = Inr (Some c)"
  obtains start uv where "startLocation options = Some start"
    and "convertToUserVector (userPreferences options) = Inr uv"
    and "c = finishCourse (startTime options)
               (appendEndLocation (genEnv tz pool options uv) False
                 (fillLoop (genEnv tz pool options uv)
                   (anchorFor (genEnv tz pool options uv) (anchorsToVisit options)
                     (initialState start (startTime options)))))"
  using assms
  by (auto simp: generateCourse_def Let_def split: option.splits sum.splits)















lemma maxEndTime_genEnv [simp]: "maxEndTime (genEnv tz pool options uv) = effectiveMaxEndTime options"
  by (simp add: genEnv_def)














lemma currentTime_appendEnd [simp]: "currentTime (appendEndLocation e mv s) = currentTime s"
  by (simp add: appendEndLocation_def Let_def split: option.splits)








section \<open>Facts about the preference vector\<close>

text \<open>A feature vector takes the values 0.5, 0.8 and 1.0 only.\<close>

definition featureValued :: "UserVector \<Rightarrow> bool" where
  "featureValued v = (\<forall>d. v d = 0.5 \<or> v d = 0.8 \<or> v d = 1)"

lemma featureValued_initial: "featureValued INITIAL_USER_VECTOR"
  by (simp add: featureValued_def INITIAL_USER_VECTOR_def)

lemma featureValued_one: "featureValued v \<Longrightarrow> featureValued (v(k := 1.0))"
  by (simp add: featureValued_def)

lemma featureValued_high: "featureValued v \<Longrightarrow> featureValued (v(k := 0.8))"
  by (simp add: featureValued_def)

lemma featureValued_if:
  "featureValued a \<Longrightarrow> featureValued b \<Longrightarrow> featureValued (if c then a else b)"
  by simp

lemma featureValued_place: "featureValued (placeToFeatureVector pl)"
  unfolding placeToFeatureVector_def Let_def
  by (intro featureValued_if featureValued_one featureValued_high featureValued_initial)

lemma featureVector_values:
  "placeToFeatureVector pl d = 0.5 \<or> placeToFeatureVector pl d = 0.8
   \<or> placeToFeatureVector pl d = 1"
  using featureValued_place[of pl] by (simp add: featureValued_def)

lemma featureVector_positive: "placeToFeatureVector pl d > 0"
  using featureVector_values[of pl d] by auto

lemma updateDim_apply:
  "pv k > 0 \<Longrightarrow> updateDim pv delta k nxt d
     = (if d = k then max 0 (min 1 (toFixed3 (nxt k + delta))) else nxt d)"
  by (simp add: updateDim_def Let_def)

lemma fold_updateDim:
  assumes "\<And>d. pv d > 0" and "distinct ds"
  shows "fold (updateDim pv delta) ds cur d
         = (if d \<in> set ds then max 0 (min 1 (toFixed3 (cur d + delta))) else cur d)"
  using assms(2)
proof (induction ds arbitrary: cur)
  case Nil
  then show ?case by simp
next
  case (Cons k ks)
  then show ?case by (auto simp: updateDim_apply[OF assms(1)])
qed

lemma VECTOR_DIMENSIONS_all: "distinct VECTOR_DIMENSIONS \<and> d \<in> set VECTOR_DIMENSIONS"
  by (cases d) (simp_all add: VECTOR_DIMENSIONS_def)

lemma fold_updateDim_all:
  assumes "\<And>d. pv d > 0"
  shows "fold (updateDim pv delta) VECTOR_DIMENSIONS cur d
         = max 0 (min 1 (toFixed3 (cur d + delta)))"
  using fold_updateDim[of pv VECTOR_DIMENSIONS delta cur d, OF assms] VECTOR_DIMENSIONS_all[of d]
  by simp

lemma updateUserVector_apply:
  "updateUserVector pl action cur d
   = max 0 (min 1 (toFixed3 (cur d + updateDelta action)))"
  by (simp add: updateUserVector_def Let_def fold_updateDim_all featureVector_positive)

lemma round_half_close: "\<bar>of_int \<lfloor>z + 1 / 2\<rfloor> / 1000 - z / 1000\<bar> \<le> 1 / (2000::real)"
proof -
  have "of_int \<lfloor>z + 1 / 2\<rfloor> \<le> z + 1 / 2" "z + 1 / 2 < of_int \<lfloor>z + 1 / 2\<rfloor> + 1"
    by linarith+
  then show ?thesis by linarith
qed

lemma toFixed3_close: "\<bar>toFixed3 y - y\<bar> \<le> 1 / 2000"
proof (cases "\<bar>y\<bar> \<ge> 10 ^ 21")
  case True
  then show ?thesis by (simp add: toFixed3_def)
next
  case big: False
  show ?thesis
  proof (cases "y < 0")
    case True
    have "toFixed3 y = - (of_int \<lfloor>(- y) * 1000 + 1 / 2\<rfloor> / 1000)"
      using big True by (simp add: toFixed3_def)
    then show ?thesis using round_half_close[of "(- y) * 1000"] by linarith
  next
    case False
    have "toFixed3 y = of_int \<lfloor>y * 1000 + 1 / 2\<rfloor> / 1000"
      using big False by (simp add: toFixed3_def)
    then show ?thesis using round_half_close[of "y * 1000"] by linarith
  qed
qed

section \<open>Cosine similarity and the Cauchy-Schwarz inequality\<close>

text \<open>The three sums of \<open>cosineSimilarity\<close> are dot products over the dimensions.\<close>

definition dotOver :: "VectorDimension list \<Rightarrow> UserVector \<Rightarrow> UserVector \<Rightarrow> real" where
  "dotOver ds u v = sum_list (map (\<lambda>d. u d * v d) ds)"

lemma dotOver_self_nonneg: "0 \<le> dotOver ds u u"
  by (induction ds) (simp_all add: dotOver_def)

lemma dotOver_nonneg: "(\<And>d. 0 \<le> u d) \<Longrightarrow> (\<And>d. 0 \<le> v d) \<Longrightarrow> 0 \<le> dotOver ds u v"
  by (induction ds) (simp_all add: dotOver_def)

lemma cauchy_step:
  fixes D A B a b :: real
  assumes "D\<^sup>2 \<le> A * B" and "0 \<le> A" and "0 \<le> B"
  shows "(D + a * b)\<^sup>2 \<le> (A + a * a) * (B + b * b)"
proof -
  have "(2 * D * (a * b))\<^sup>2 = 4 * D\<^sup>2 * (a * b)\<^sup>2" by (simp add: power2_eq_square)
  also have "\<dots> \<le> 4 * (A * B) * (a * b)\<^sup>2"
    using assms(1) by (intro mult_right_mono mult_left_mono) simp_all
  also have "\<dots> \<le> (A * (b * b) + B * (a * a))\<^sup>2"
  proof -
    have "0 \<le> (A * (b * b) - B * (a * a))\<^sup>2" by simp
    then show ?thesis by (simp add: power2_eq_square algebra_simps)
  qed
  finally have sq: "(2 * D * (a * b))\<^sup>2 \<le> (A * (b * b) + B * (a * a))\<^sup>2" .
  have "0 \<le> A * (b * b) + B * (a * a)" using assms(2,3) by simp
  with sq have "2 * D * (a * b) \<le> A * (b * b) + B * (a * a)"
    by (rule power2_le_imp_le)
  moreover have "(D + a * b)\<^sup>2 = D\<^sup>2 + 2 * D * (a * b) + (a * a) * (b * b)"
    by (simp add: power2_eq_square algebra_simps)
  moreover have "(A + a * a) * (B + b * b) = A * B + A * (b * b) + B * (a * a) + (a * a) * (b * b)"
    by (simp add: algebra_simps)
  ultimately show ?thesis using assms(1) by linarith
qed

lemma cauchy_schwarz: "(dotOver ds u v)\<^sup>2 \<le> dotOver ds u u * dotOver ds v v"
proof (induction ds)
  case Nil
  then show ?case by (simp add: dotOver_def)
next
  case (Cons d ds)
  have "(dotOver ds u v + u d * v d)\<^sup>2
        \<le> (dotOver ds u u + u d * u d) * (dotOver ds v v + v d * v d)"
    by (rule cauchy_step[OF Cons.IH dotOver_self_nonneg dotOver_self_nonneg])
  then show ?case by (simp add: dotOver_def add.commute)
qed

text \<open>The magnitude of a vector: the square root of the sum of the squares of its ten
  dimensions.\<close>

definition magnitude :: "UserVector \<Rightarrow> real" where
  "magnitude v = sqrt (sum_list (map (\<lambda>d. v d * v d) VECTOR_DIMENSIONS))"

section \<open>The rounding of \<open>cosineSimilarity\<close>\<close>

subsection \<open>Rounding\<close>

lemma roundHalfEven_close: "\<bar>of_int (roundHalfEven q) - q\<bar> \<le> 1 / 2"
  unfolding roundHalfEven_def Let_def by (auto; linarith)

lemma roundHalfEven_near:
  assumes "\<bar>q - of_int n\<bar> < 1 / 2"
  shows "roundHalfEven q = n"
proof -
  have "\<lfloor>q\<rfloor> = n \<or> \<lfloor>q\<rfloor> = n - 1" using assms by linarith
  then show ?thesis
  proof
    assume f: "\<lfloor>q\<rfloor> = n"
    then have "q - of_int n < 1 / 2" using assms by linarith
    then show ?thesis using f by (simp add: roundHalfEven_def Let_def)
  next
    assume f: "\<lfloor>q\<rfloor> = n - 1"
    have "q > of_int n - 1 / 2" using assms by linarith
    then have "\<not> q - of_int (n - 1) < 1 / 2" "q - of_int (n - 1) > 1 / 2" by simp_all
    then show ?thesis using f by (simp add: roundHalfEven_def Let_def)
  qed
qed

lemma roundHalfEven_int [simp]: "roundHalfEven (of_int n) = n"
  by (rule roundHalfEven_near) simp

lemma roundHalfEven_ge:
  assumes "of_int n \<le> q"
  shows "n \<le> roundHalfEven q"
proof -
  have "n \<le> \<lfloor>q\<rfloor>" using assms by (simp add: le_floor_iff)
  moreover have "\<lfloor>q\<rfloor> \<le> roundHalfEven q" by (simp add: roundHalfEven_def Let_def)
  ultimately show ?thesis by simp
qed

lemma roundHalfEven_le:
  assumes "q \<le> of_int n"
  shows "roundHalfEven q \<le> n"
proof (cases "q = of_int n")
  case True
  then show ?thesis by simp
next
  case False
  then have "q < of_int n" using assms by simp
  then have "\<lfloor>q\<rfloor> < n" by (simp add: floor_less_iff)
  moreover have "roundHalfEven q \<le> \<lfloor>q\<rfloor> + 1" by (simp add: roundHalfEven_def Let_def)
  ultimately show ?thesis by simp
qed

text \<open>
  The same rounding with an unbounded exponent: it has a relative error of at most
  \<open>2 powr - 53\<close> everywhere, and it is what \<open>number\<close> computes as long as neither overflow nor
  underflow occurs.
\<close>

definition roundUnbounded :: "real \<Rightarrow> real" where
  "roundUnbounded x =
     (if x = 0 then 0
      else (let e = \<lfloor>log 2 \<bar>x\<bar>\<rfloor>;
                ulp = 2 powr of_int (e - 52)
            in of_int (roundHalfEven (x / ulp)) * ulp))"

lemma roundUnbounded_zero [simp]: "roundUnbounded 0 = 0"
  by (simp add: roundUnbounded_def)

lemma floor_log2:
  assumes "2 powr of_int e \<le> x" and "x < 2 powr of_int (e + 1)"
  shows "\<lfloor>log 2 x\<rfloor> = e"
proof -
  have "(0::real) < 2 powr of_int e" by simp
  then have x0: "0 < x" using assms(1) by linarith
  have "of_int e \<le> log 2 x" using assms(1) x0 by (simp add: le_log_iff)
  moreover have "log 2 x < of_int (e + 1)" using assms(2) x0 by (simp add: log_less_iff)
  ultimately show ?thesis by linarith
qed

lemma roundUnbounded_eval:
  assumes "ulp = 2 powr of_int k" and "2 ^ 52 * ulp \<le> x" and "x < 2 ^ 53 * ulp"
  shows "roundUnbounded x = of_int (roundHalfEven (x / ulp)) * ulp"
proof -
  have u0: "0 < ulp" using assms(1) by simp
  then have "0 < 2 ^ 52 * ulp" by simp
  then have x0: "0 < x" using assms(2) by linarith
  have p52: "2 powr of_int (k + 52) = 2 ^ 52 * ulp"
    by (simp add: assms(1) powr_add powr_realpow[symmetric] mult.commute)
  have p53: "2 powr of_int (k + 52 + 1) = 2 ^ 53 * ulp"
    by (simp add: assms(1) powr_add powr_realpow[symmetric] mult.commute)
  have "\<lfloor>log 2 x\<rfloor> = k + 52"
    by (rule floor_log2) (use assms p52 p53 in simp_all)
  then show ?thesis using x0 by (simp add: roundUnbounded_def Let_def assms(1))
qed

lemma roundUnbounded_positive:
  assumes "0 < x"
  obtains e ulp where "e = \<lfloor>log 2 x\<rfloor>" and "0 < ulp"
    and "2 powr of_int e = 2 ^ 52 * ulp" and "2 powr of_int (e + 1) = 2 ^ 53 * ulp"
    and "2 ^ 52 * ulp \<le> x" and "x < 2 ^ 53 * ulp"
    and "roundUnbounded x = of_int (roundHalfEven (x / ulp)) * ulp"
proof -
  define e where "e = \<lfloor>log 2 x\<rfloor>"
  define ulp :: real where "ulp = 2 powr of_int (e - 52)"
  have u0: "0 < ulp" by (simp add: ulp_def)
  have p52: "2 powr of_int e = 2 ^ 52 * ulp"
    by (simp add: ulp_def powr_diff powr_realpow[symmetric])
  have p53: "2 powr of_int (e + 1) = 2 ^ 53 * ulp"
    by (simp add: ulp_def powr_diff powr_add powr_realpow[symmetric])
  have "of_int e \<le> log 2 x" by (simp add: e_def)
  then have "2 powr of_int e \<le> x" using assms by (simp add: le_log_iff)
  then have lo: "2 ^ 52 * ulp \<le> x" by (simp only: p52)
  have "log 2 x < of_int (e + 1)" unfolding e_def by linarith
  then have "x < 2 powr of_int (e + 1)" using assms by (simp add: log_less_iff)
  then have hi: "x < 2 ^ 53 * ulp" by (simp only: p53)
  have r: "roundUnbounded x = of_int (roundHalfEven (x / ulp)) * ulp"
    using assms by (simp add: roundUnbounded_def Let_def e_def ulp_def)
  show thesis using that[OF e_def u0 p52 p53 lo hi r] .
qed

lemma roundUnbounded_relative: "\<bar>roundUnbounded x - x\<bar> \<le> \<bar>x\<bar> / 2 ^ 53"
proof (cases "x = 0")
  case True
  then show ?thesis by simp
next
  case False
  define e where "e = \<lfloor>log 2 \<bar>x\<bar>\<rfloor>"
  define ulp :: real where "ulp = 2 powr of_int (e - 52)"
  have u0: "0 < ulp" by (simp add: ulp_def)
  have ax: "0 < \<bar>x\<bar>" using False by simp
  have "of_int e \<le> log 2 \<bar>x\<bar>" by (simp add: e_def)
  then have "2 powr of_int e \<le> \<bar>x\<bar>" using ax by (simp add: le_log_iff)
  moreover have "2 powr of_int e = 2 ^ 52 * ulp"
    by (simp add: ulp_def powr_diff powr_realpow[symmetric])
  ultimately have low: "2 ^ 52 * ulp \<le> \<bar>x\<bar>" by simp
  have r: "roundUnbounded x = of_int (roundHalfEven (x / ulp)) * ulp"
    using False by (simp add: roundUnbounded_def Let_def e_def ulp_def)
  have "\<bar>of_int (roundHalfEven (x / ulp)) - x / ulp\<bar> \<le> 1 / 2" by (rule roundHalfEven_close)
  then have "\<bar>of_int (roundHalfEven (x / ulp)) - x / ulp\<bar> * ulp \<le> 1 / 2 * ulp"
    using u0 by (intro mult_right_mono) simp_all
  moreover have "\<bar>of_int (roundHalfEven (x / ulp)) - x / ulp\<bar> * ulp = \<bar>roundUnbounded x - x\<bar>"
  proof -
    have "roundUnbounded x - x = (of_int (roundHalfEven (x / ulp)) - x / ulp) * ulp"
      using u0 by (simp add: r left_diff_distrib)
    then show ?thesis using u0 by (simp add: abs_mult)
  qed
  ultimately have "\<bar>roundUnbounded x - x\<bar> \<le> ulp / 2" by simp
  also have "ulp / 2 \<le> \<bar>x\<bar> / 2 ^ 53" using low by simp
  finally show ?thesis .
qed

lemma roundUnbounded_error: "\<bar>roundUnbounded x - x\<bar> \<le> 1 / 2 ^ 53 * \<bar>x\<bar>"
  using roundUnbounded_relative[of x] by simp

text \<open>Rounding never crosses a power of two.\<close>

lemma roundUnbounded_ge_power:
  assumes "2 powr of_int j \<le> x"
  shows "2 powr of_int j \<le> roundUnbounded x"
proof -
  have "(0::real) < 2 powr of_int j" by simp
  then have x0: "0 < x" using assms by linarith
  from roundUnbounded_positive[OF x0] obtain e ulp where
    e: "e = \<lfloor>log 2 x\<rfloor>" and u0: "0 < ulp" and p52: "2 powr of_int e = 2 ^ 52 * ulp"
    and lo: "2 ^ 52 * ulp \<le> x"
    and r: "roundUnbounded x = of_int (roundHalfEven (x / ulp)) * ulp"
    by blast
  have "of_int j \<le> log 2 x" using assms x0 by (simp add: le_log_iff)
  then have je: "j \<le> e" by (simp add: e le_floor_iff)
  have "of_int (2 ^ 52) \<le> x / ulp" using lo u0 by (simp add: pos_le_divide_eq)
  then have "2 ^ 52 \<le> roundHalfEven (x / ulp)" by (rule roundHalfEven_ge)
  then have "(of_int (2 ^ 52) :: real) \<le> of_int (roundHalfEven (x / ulp))"
    by (simp only: of_int_le_iff)
  then have "of_int (2 ^ 52) * ulp \<le> of_int (roundHalfEven (x / ulp)) * ulp"
    using u0 by (intro mult_right_mono) simp_all
  then have "2 powr of_int e \<le> roundUnbounded x" by (simp add: r p52)
  moreover have "(2::real) powr of_int j \<le> 2 powr of_int e"
    using je by (intro powr_mono) simp_all
  ultimately show ?thesis by linarith
qed

lemma roundUnbounded_le_power:
  assumes "0 < x" and "x \<le> 2 powr of_int j"
  shows "roundUnbounded x \<le> 2 powr of_int j"
proof -
  from roundUnbounded_positive[OF assms(1)] obtain e ulp where
    e: "e = \<lfloor>log 2 x\<rfloor>" and u0: "0 < ulp" and p52: "2 powr of_int e = 2 ^ 52 * ulp"
    and p53: "2 powr of_int (e + 1) = 2 ^ 53 * ulp"
    and lo: "2 ^ 52 * ulp \<le> x" and hi: "x < 2 ^ 53 * ulp"
    and r: "roundUnbounded x = of_int (roundHalfEven (x / ulp)) * ulp"
    by blast
  have "log 2 x \<le> of_int j" using assms by (simp add: log_le_iff)
  then have ej: "e \<le> j" unfolding e by linarith
  show ?thesis
  proof (cases "e = j")
    case True
    then have "x \<le> 2 ^ 52 * ulp" using assms(2) p52 by simp
    then have "x = 2 ^ 52 * ulp" using lo by simp
    then have "x / ulp = of_int (2 ^ 52)" using u0 by simp
    then have "roundUnbounded x = of_int (2 ^ 52) * ulp"
      unfolding r by (simp only: roundHalfEven_int)
    then show ?thesis using True p52 by simp
  next
    case False
    then have "e + 1 \<le> j" using ej by simp
    then have le: "(2::real) powr of_int (e + 1) \<le> 2 powr of_int j"
      by (intro powr_mono) simp_all
    have "x / ulp \<le> of_int (2 ^ 53)" using hi u0 by (simp add: pos_divide_le_eq)
    then have "roundHalfEven (x / ulp) \<le> 2 ^ 53" by (rule roundHalfEven_le)
    then have "(of_int (roundHalfEven (x / ulp)) :: real) \<le> of_int (2 ^ 53)"
      by (simp only: of_int_le_iff)
    then have "of_int (roundHalfEven (x / ulp)) * ulp \<le> of_int (2 ^ 53) * ulp"
      using u0 by (intro mult_right_mono) simp_all
    then have "roundUnbounded x \<le> 2 powr of_int (e + 1)" unfolding r p53 by simp
    then show ?thesis using le by linarith
  qed
qed

lemma power_as_powr: "2 ^ n = (2::real) powr of_int (int n)"
  by (simp add: powr_realpow)

lemma ulp_negative_power: "1 / 2 ^ n = (2::real) powr of_int (- int n)"
  by (simp add: powr_minus powr_realpow inverse_eq_divide)

subsection \<open>Numbers inReach reach of neither overflow nor underflow\<close>

definition inReach :: "nat \<Rightarrow> real \<Rightarrow> bool" where
  "inReach n x \<longleftrightarrow> x = 0 \<or> (1 / 2 ^ n \<le> x \<and> x \<le> 2 ^ n)"

lemma inReach_zero [simp]: "inReach n 0"
  by (simp add: inReach_def)

lemma inReach_nonneg: "inReach n x \<Longrightarrow> 0 \<le> x"
proof -
  assume "inReach n x"
  moreover have "(0::real) \<le> 1 / 2 ^ n" by simp
  ultimately show ?thesis unfolding inReach_def by linarith
qed

lemma inReach_mono:
  assumes "inReach n x" and "n \<le> m"
  shows "inReach m x"
proof -
  have "(2::real) ^ n \<le> 2 ^ m" using assms(2) by (intro power_increasing) simp_all
  moreover from this have "(1::real) / 2 ^ m \<le> 1 / 2 ^ n" by (intro divide_left_mono) simp_all
  ultimately show ?thesis using assms(1) unfolding inReach_def by linarith
qed

lemma inReach_round:
  assumes "inReach n x"
  shows "inReach n (roundUnbounded x)"
proof (cases "x = 0")
  case True
  then show ?thesis by simp
next
  case False
  then have b: "1 / 2 ^ n \<le> x" "x \<le> 2 ^ n" using assms by (simp_all add: inReach_def)
  have "(0::real) < 1 / 2 ^ n" by simp
  then have x0: "0 < x" using b(1) by linarith
  have "1 / 2 ^ n \<le> roundUnbounded x"
    using roundUnbounded_ge_power[of "- int n" x] b(1) by (simp only: ulp_negative_power)
  moreover have "roundUnbounded x \<le> 2 ^ n"
    using roundUnbounded_le_power[OF x0, of "int n"] b(2) by (simp only: power_as_powr)
  ultimately show ?thesis by (simp add: inReach_def)
qed

lemma inReach_mult:
  assumes "inReach n x" and "inReach m y"
  shows "inReach (n + m) (x * y)"
proof (cases "x = 0 \<or> y = 0")
  case True
  then show ?thesis by auto
next
  case False
  then have b: "1 / 2 ^ n \<le> x" "x \<le> 2 ^ n" "1 / 2 ^ m \<le> y" "y \<le> 2 ^ m"
    using assms by (simp_all add: inReach_def)
  have x0: "0 \<le> x" using assms(1) by (rule inReach_nonneg)
  have y0: "0 \<le> y" using assms(2) by (rule inReach_nonneg)
  have "(1 / 2 ^ n) * (1 / 2 ^ m) \<le> x * y"
    using b(1,3) by (intro mult_mono) (simp_all add: x0)
  moreover have "x * y \<le> 2 ^ n * 2 ^ m"
    using b(2,4) x0 y0 by (intro mult_mono) simp_all
  ultimately show ?thesis by (simp add: inReach_def power_add)
qed

lemma inReach_add:
  assumes "inReach n x" and "inReach n y"
  shows "inReach (Suc n) (x + y)"
proof (cases "x = 0 \<and> y = 0")
  case True
  then show ?thesis by simp
next
  case False
  have x0: "0 \<le> x" using assms(1) by (rule inReach_nonneg)
  have y0: "0 \<le> y" using assms(2) by (rule inReach_nonneg)
  have hx: "x \<le> 2 ^ n" and hy: "y \<le> 2 ^ n"
    using assms by (auto simp: inReach_def)
  have "1 / 2 ^ n \<le> x \<or> 1 / 2 ^ n \<le> y" using False assms by (auto simp: inReach_def)
  then have "1 / 2 ^ n \<le> x + y" using x0 y0 by linarith
  moreover have "(1::real) / 2 ^ Suc n \<le> 1 / 2 ^ n"
    by (intro divide_left_mono) simp_all
  ultimately have "1 / 2 ^ Suc n \<le> x + y" by linarith
  moreover have "x + y \<le> 2 ^ Suc n" using hx hy by simp
  ultimately show ?thesis by (simp only: inReach_def) simp
qed

lemma inReach_sqrt:
  assumes "inReach (2 * n) x"
  shows "inReach n (sqrt x)"
proof (cases "x = 0")
  case True
  then show ?thesis by simp
next
  case False
  then have b: "1 / 2 ^ (2 * n) \<le> x" "x \<le> 2 ^ (2 * n)" using assms by (simp_all add: inReach_def)
  have "(1 / 2 ^ n)\<^sup>2 \<le> x" using b(1) by (simp add: power_divide power_mult[symmetric] mult.commute)
  then have "1 / 2 ^ n \<le> sqrt x" by (rule real_le_rsqrt)
  moreover have "x \<le> (2 ^ n)\<^sup>2" using b(2) by (simp add: power_mult[symmetric] mult.commute)
  then have "sqrt x \<le> 2 ^ n" by (intro real_le_lsqrt) simp_all
  ultimately show ?thesis by (simp add: inReach_def)
qed

lemma inReach_divide:
  assumes "inReach n x" and "inReach n y" and "y \<noteq> 0"
  shows "inReach (2 * n) (x / y)"
proof (cases "x = 0")
  case True
  then show ?thesis by simp
next
  case False
  then have b: "1 / 2 ^ n \<le> x" "x \<le> 2 ^ n" "1 / 2 ^ n \<le> y" "y \<le> 2 ^ n"
    using assms by (simp_all add: inReach_def)
  have p: "(0::real) < 1 / 2 ^ n" by simp
  have x0: "0 \<le> x" using assms(1) by (rule inReach_nonneg)
  have y0: "0 < y" using p b(3) by linarith
  have "(1 / 2 ^ n) / 2 ^ n \<le> x / y" using b(1,4) p y0 x0
    by (intro frac_le) simp_all
  moreover have "x / y \<le> 2 ^ n / (1 / 2 ^ n)" using b(2,3) p x0
    by (intro frac_le) simp_all
  ultimately show ?thesis by (simp add: inReach_def mult_2 power_add)
qed

lemma roundBinary64_normal:
  assumes "1 / 2 ^ 1022 \<le> x"
  shows "roundBinary64 x = roundUnbounded x"
proof -
  have "(0::real) < 1 / 2 ^ 1022" by simp
  then have x0: "0 < x" using assms by linarith
  have "2 powr of_int (- int 1022) \<le> x" using assms by (simp only: ulp_negative_power)
  then have "of_int (- int 1022) \<le> log 2 x" using x0 by (simp add: le_log_iff)
  then have "- 1022 \<le> \<lfloor>log 2 x\<rfloor>" by (simp add: le_floor_iff)
  then have "max \<lfloor>log 2 \<bar>x\<bar>\<rfloor> (- 1022) = \<lfloor>log 2 \<bar>x\<bar>\<rfloor>" using x0 by simp
  then show ?thesis by (simp only: roundBinary64_def roundUnbounded_def)
qed

lemma number_zero [simp]: "number 0 = Num 0"
  by (simp add: number_def roundBinary64_def)

lemma number_within:
  assumes "inReach n x" and "n \<le> 1022"
  shows "number x = Num (roundUnbounded x)"
proof (cases "x = 0")
  case True
  then show ?thesis by simp
next
  case False
  have w: "inReach 1022 x" using assms by (rule inReach_mono)
  then have "1 / 2 ^ 1022 \<le> x" using False by (simp add: inReach_def)
  then have eq: "roundBinary64 x = roundUnbounded x" by (rule roundBinary64_normal)
  have "inReach 1022 (roundUnbounded x)" using w by (rule inReach_round)
  then have "0 \<le> roundUnbounded x" and "roundUnbounded x \<le> 2 ^ 1022"
    by (auto simp: inReach_def)
  moreover have "(2::real) ^ 1022 < 2 ^ 1024" by simp
  ultimately have "\<not> 2 ^ 1024 \<le> roundUnbounded x" and "\<not> roundUnbounded x \<le> - (2 ^ 1024)"
    by linarith+
  then show ?thesis by (simp only: number_def eq Let_def if_False)
qed

subsection \<open>The accumulated rounding error\<close>

text \<open>
  The computation of \<open>cosineSimilarity\<close> over the reals, with the rounding of each operation
  as a parameter: \<open>roundUnbounded\<close> for the program away from overflow and underflow, the
  identity for exact arithmetic. \<open>sumRounded\<close> is one running sum of the loop, with its two
  roundings per round.
\<close>

definition sumRounded ::
  "(real \<Rightarrow> real) \<Rightarrow> VectorDimension list \<Rightarrow> UserVector \<Rightarrow> UserVector \<Rightarrow> real \<Rightarrow> real" where
  "sumRounded rnd ds a b x = fold (\<lambda>d acc. rnd (acc + rnd (a d * b d))) ds x"

definition cosineSimilarityWith :: "(real \<Rightarrow> real) \<Rightarrow> UserVector \<Rightarrow> UserVector \<Rightarrow> real" where
  "cosineSimilarityWith rnd vecA vecB =
     (let dotProduct = sumRounded rnd VECTOR_DIMENSIONS vecA vecB 0;
          normA = sumRounded rnd VECTOR_DIMENSIONS vecA vecA 0;
          normB = sumRounded rnd VECTOR_DIMENSIONS vecB vecB 0;
          denominator = rnd (rnd (sqrt normA) * rnd (sqrt normB))
      in if denominator = 0 then 0 else rnd (dotProduct / denominator))"

lemma rnd_bounds:
  fixes rnd :: "real \<Rightarrow> real"
  assumes rel: "\<And>x. \<bar>rnd x - x\<bar> \<le> eps * \<bar>x\<bar>" and "0 \<le> x"
  shows "(1 - eps) * x \<le> rnd x" and "rnd x \<le> (1 + eps) * x"
proof -
  have "\<bar>rnd x - x\<bar> \<le> eps * x" using rel[of x] assms(2) by simp
  then show "(1 - eps) * x \<le> rnd x" and "rnd x \<le> (1 + eps) * x"
    by (simp_all add: abs_le_iff algebra_simps)
qed

lemma rnd_zero:
  fixes rnd :: "real \<Rightarrow> real"
  assumes rel: "\<And>x. \<bar>rnd x - x\<bar> \<le> eps * \<bar>x\<bar>"
  shows "rnd 0 = 0"
  using rel[of 0] by simp

lemma sumRounded_bounds:
  fixes rnd :: "real \<Rightarrow> real"
  assumes rel: "\<And>x. \<bar>rnd x - x\<bar> \<le> eps * \<bar>x\<bar>" and eps: "0 \<le> eps" "eps \<le> 1"
    and nn: "\<And>d. 0 \<le> a d" "\<And>d. 0 \<le> b d"
    and k: "1 \<le> k" and X: "0 \<le> X"
    and lo: "(1 - eps) ^ k * X \<le> x" and hi: "x \<le> (1 + eps) ^ k * X"
  shows "(1 - eps) ^ (k + length ds) * (X + dotOver ds a b) \<le> sumRounded rnd ds a b x
         \<and> sumRounded rnd ds a b x \<le> (1 + eps) ^ (k + length ds) * (X + dotOver ds a b)"
  using k X lo hi
proof (induction ds arbitrary: x X k)
  case Nil
  then show ?case by (simp add: sumRounded_def dotOver_def)
next
  case (Cons d ds)
  define t where "t = a d * b d"
  define y where "y = x + rnd t"
  have t0: "0 \<le> t" using nn by (simp add: t_def)
  have m0: "0 \<le> 1 - eps" using eps by simp
  have p0: "1 \<le> 1 + eps" using eps by simp
  have x0: "0 \<le> x"
    using Cons.prems(2,3) m0 by (meson mult_nonneg_nonneg order_trans zero_le_power)
  have rt: "(1 - eps) * t \<le> rnd t" "rnd t \<le> (1 + eps) * t"
    using rnd_bounds[OF rel t0] by simp_all
  have rt0: "0 \<le> rnd t" using rt(1) m0 t0 by (meson mult_nonneg_nonneg order_trans)
  have y0: "0 \<le> y" using x0 rt0 by (simp add: y_def)
  have ry: "(1 - eps) * y \<le> rnd y" "rnd y \<le> (1 + eps) * y"
    using rnd_bounds[OF rel y0] by simp_all
  have pk: "1 + eps \<le> (1 + eps) ^ k"
    using p0 Cons.prems(1) by (metis power_increasing power_one_right)
  have mk: "(1 - eps) ^ k \<le> 1 - eps"
  proof -
    have "1 - eps \<le> 1" using eps by simp
    then have "(1 - eps) ^ k \<le> (1 - eps) ^ 1"
      using m0 Cons.prems(1) by (intro power_decreasing) simp_all
    then show ?thesis by simp
  qed
  have up: "y \<le> (1 + eps) ^ k * (X + t)"
  proof -
    have "rnd t \<le> (1 + eps) ^ k * t"
      using rt(2) pk t0 by (meson mult_right_mono order_trans)
    then show ?thesis using Cons.prems(4) by (simp add: y_def algebra_simps)
  qed
  have dn: "(1 - eps) ^ k * (X + t) \<le> y"
  proof -
    have "(1 - eps) ^ k * t \<le> rnd t"
      using rt(1) mk t0 by (meson mult_right_mono order_trans)
    then show ?thesis using Cons.prems(3) by (simp add: y_def algebra_simps)
  qed
  have hi': "rnd y \<le> (1 + eps) ^ Suc k * (X + t)"
  proof -
    have "(1 + eps) * y \<le> (1 + eps) * ((1 + eps) ^ k * (X + t))"
      using up p0 by (intro mult_left_mono) simp_all
    then show ?thesis using ry(2) by (simp add: algebra_simps)
  qed
  have lo': "(1 - eps) ^ Suc k * (X + t) \<le> rnd y"
  proof -
    have "(1 - eps) * ((1 - eps) ^ k * (X + t)) \<le> (1 - eps) * y"
      using dn m0 by (intro mult_left_mono) simp_all
    then show ?thesis using ry(1) by (simp add: algebra_simps)
  qed
  have Xt: "0 \<le> X + t" using Cons.prems(2) t0 by simp
  have "1 \<le> Suc k" by simp
  from Cons.IH[OF this Xt lo' hi']
  have "(1 - eps) ^ (Suc k + length ds) * (X + t + dotOver ds a b) \<le> sumRounded rnd ds a b (rnd y)
        \<and> sumRounded rnd ds a b (rnd y) \<le> (1 + eps) ^ (Suc k + length ds) * (X + t + dotOver ds a b)" .
  moreover have "sumRounded rnd (d # ds) a b x = sumRounded rnd ds a b (rnd y)"
    by (simp add: sumRounded_def y_def t_def)
  moreover have "X + dotOver (d # ds) a b = X + t + dotOver ds a b"
    by (simp add: dotOver_def t_def)
  ultimately show ?case by (simp add: add.assoc)
qed

lemma sumRounded_from_zero:
  fixes rnd :: "real \<Rightarrow> real"
  assumes rel: "\<And>x. \<bar>rnd x - x\<bar> \<le> eps * \<bar>x\<bar>" and eps: "0 \<le> eps" "eps \<le> 1"
    and nn: "\<And>d. 0 \<le> a d" "\<And>d. 0 \<le> b d"
  shows "(1 - eps) ^ 11 * dotOver VECTOR_DIMENSIONS a b \<le> sumRounded rnd VECTOR_DIMENSIONS a b 0"
    and "sumRounded rnd VECTOR_DIMENSIONS a b 0 \<le> (1 + eps) ^ 11 * dotOver VECTOR_DIMENSIONS a b"
proof -
  have l: "1 + length VECTOR_DIMENSIONS = 11" by (simp add: VECTOR_DIMENSIONS_def)
  have "(1 - eps) ^ (1 + length VECTOR_DIMENSIONS) * (0 + dotOver VECTOR_DIMENSIONS a b)
          \<le> sumRounded rnd VECTOR_DIMENSIONS a b 0
        \<and> sumRounded rnd VECTOR_DIMENSIONS a b 0
          \<le> (1 + eps) ^ (1 + length VECTOR_DIMENSIONS) * (0 + dotOver VECTOR_DIMENSIONS a b)"
    by (rule sumRounded_bounds[where rnd = rnd and eps = eps, OF rel eps nn]) simp_all
  then show "(1 - eps) ^ 11 * dotOver VECTOR_DIMENSIONS a b \<le> sumRounded rnd VECTOR_DIMENSIONS a b 0"
    and "sumRounded rnd VECTOR_DIMENSIONS a b 0 \<le> (1 + eps) ^ 11 * dotOver VECTOR_DIMENSIONS a b"
    unfolding l by simp_all
qed

lemma rounding_budget:
  fixes eps :: real
  assumes "0 \<le> eps" and "eps \<le> 1 / 2 ^ 53"
  shows "(1 + eps) ^ 12 \<le> (1 + 1 / 2 ^ 48) * (1 - eps) ^ 15"
proof -
  have "(1 + eps) ^ 12 \<le> (1 + 1 / 2 ^ 53) ^ 12"
    using assms by (intro power_mono) simp_all
  moreover have "(1 + 1 / 2 ^ 53 :: real) ^ 12 \<le> (1 + 1 / 2 ^ 48) * (1 - 1 / 2 ^ 53) ^ 15"
    by (simp add: field_simps)
  moreover have "(1 + 1 / 2 ^ 48) * (1 - 1 / 2 ^ 53 :: real) ^ 15 \<le> (1 + 1 / 2 ^ 48) * (1 - eps) ^ 15"
  proof (rule mult_left_mono)
    show "(1 - 1 / 2 ^ 53 :: real) ^ 15 \<le> (1 - eps) ^ 15"
      using assms by (intro power_mono) simp_all
  qed simp
  ultimately show ?thesis by linarith
qed


lemma sqrt_shrunk:
  assumes "0 \<le> m" and "m \<le> 1" and "0 \<le> A" and "m ^ 11 * A \<le> A'"
  shows "m ^ 6 * sqrt A \<le> sqrt A'"
proof -
  have "m ^ 12 \<le> m ^ 11" using assms(1,2) by (intro power_decreasing) simp_all
  then have "m ^ 12 * A \<le> m ^ 11 * A" using assms(3) by (intro mult_right_mono)
  then have "(m ^ 6)\<^sup>2 * A \<le> A'" using assms(4) by (simp add: power_mult[symmetric])
  then have "sqrt ((m ^ 6)\<^sup>2 * A) \<le> sqrt A'" by (rule real_sqrt_le_mono)
  moreover have "sqrt ((m ^ 6)\<^sup>2 * A) = m ^ 6 * sqrt A"
    unfolding real_sqrt_mult real_sqrt_abs using assms(1) by simp
  ultimately show ?thesis by (simp only:)
qed

lemma cosineSimilarityWith_range:
  fixes rnd :: "real \<Rightarrow> real"
  assumes rel: "\<And>x. \<bar>rnd x - x\<bar> \<le> eps * \<bar>x\<bar>" and eps: "0 \<le> eps" "eps \<le> 1 / 2 ^ 53"
    and nn: "\<And>d. 0 \<le> u d" "\<And>d. 0 \<le> v d"
  shows "0 \<le> cosineSimilarityWith rnd u v"
    and "cosineSimilarityWith rnd u v \<le> (1 + eps) ^ 12 / (1 - eps) ^ 15"
    and "magnitude u = 0 \<or> magnitude v = 0 \<Longrightarrow> cosineSimilarityWith rnd u v = 0"
proof -
  let ?D = "dotOver VECTOR_DIMENSIONS u v"
  let ?A = "dotOver VECTOR_DIMENSIONS u u"
  let ?B = "dotOver VECTOR_DIMENSIONS v v"
  define D' where "D' = sumRounded rnd VECTOR_DIMENSIONS u v 0"
  define A' where "A' = sumRounded rnd VECTOR_DIMENSIONS u u 0"
  define B' where "B' = sumRounded rnd VECTOR_DIMENSIONS v v 0"
  define sA where "sA = rnd (sqrt A')"
  define sB where "sB = rnd (sqrt B')"
  define den where "den = rnd (sA * sB)"
  have e1: "eps \<le> 1" using eps(2) by (rule order_trans) simp
  have m0: "0 \<le> 1 - eps" and m1: "1 - eps \<le> 1" and p0: "0 \<le> 1 + eps"
    using eps(1) e1 by simp_all
  have D0: "0 \<le> ?D" using nn by (rule dotOver_nonneg)
  have A0: "0 \<le> ?A" and B0: "0 \<le> ?B" by (rule dotOver_self_nonneg)+
  have Dhi: "D' \<le> (1 + eps) ^ 11 * ?D" and Dlo: "(1 - eps) ^ 11 * ?D \<le> D'"
    unfolding D'_def using sumRounded_from_zero[OF rel eps(1) e1 nn] by simp_all
  have Alo: "(1 - eps) ^ 11 * ?A \<le> A'" and Ahi: "A' \<le> (1 + eps) ^ 11 * ?A"
    unfolding A'_def using sumRounded_from_zero[OF rel eps(1) e1 nn(1) nn(1)] by simp_all
  have Blo: "(1 - eps) ^ 11 * ?B \<le> B'" and Bhi: "B' \<le> (1 + eps) ^ 11 * ?B"
    unfolding B'_def using sumRounded_from_zero[OF rel eps(1) e1 nn(2) nn(2)] by simp_all
  have D'0: "0 \<le> D'" using Dlo D0 m0 by (meson mult_nonneg_nonneg order_trans zero_le_power)
  have sqA: "(1 - eps) ^ 6 * sqrt ?A \<le> sqrt A'" using m0 m1 A0 Alo by (rule sqrt_shrunk)
  have sqB: "(1 - eps) ^ 6 * sqrt ?B \<le> sqrt B'" using m0 m1 B0 Blo by (rule sqrt_shrunk)
  have sqA0: "0 \<le> sqrt A'" using sqA m0 A0
    by (meson mult_nonneg_nonneg order_trans real_sqrt_ge_zero zero_le_power)
  have sqB0: "0 \<le> sqrt B'" using sqB m0 B0
    by (meson mult_nonneg_nonneg order_trans real_sqrt_ge_zero zero_le_power)
  have sAlo: "(1 - eps) ^ 7 * sqrt ?A \<le> sA"
  proof -
    have "(1 - eps) * ((1 - eps) ^ 6 * sqrt ?A) \<le> (1 - eps) * sqrt A'"
      using sqA m0 by (rule mult_left_mono)
    moreover have "(1 - eps) * sqrt A' \<le> sA"
      unfolding sA_def using rnd_bounds(1)[OF rel sqA0] .
    ultimately show ?thesis by (simp add: power_Suc numeral_eq_Suc mult.assoc)
  qed
  have sBlo: "(1 - eps) ^ 7 * sqrt ?B \<le> sB"
  proof -
    have "(1 - eps) * ((1 - eps) ^ 6 * sqrt ?B) \<le> (1 - eps) * sqrt B'"
      using sqB m0 by (rule mult_left_mono)
    moreover have "(1 - eps) * sqrt B' \<le> sB"
      unfolding sB_def using rnd_bounds(1)[OF rel sqB0] .
    ultimately show ?thesis by (simp add: power_Suc numeral_eq_Suc mult.assoc)
  qed
  have lA0: "0 \<le> (1 - eps) ^ 7 * sqrt ?A" and lB0: "0 \<le> (1 - eps) ^ 7 * sqrt ?B"
    using m0 A0 B0 by simp_all
  have sA0: "0 \<le> sA" and sB0: "0 \<le> sB" using sAlo sBlo lA0 lB0 by linarith+
  have prod: "((1 - eps) ^ 7 * sqrt ?A) * ((1 - eps) ^ 7 * sqrt ?B) \<le> sA * sB"
    using sAlo sBlo lA0 lB0 by (rule mult_mono') 
  have denlo: "(1 - eps) ^ 15 * (sqrt ?A * sqrt ?B) \<le> den"
  proof -
    have "(1 - eps) * (((1 - eps) ^ 7 * sqrt ?A) * ((1 - eps) ^ 7 * sqrt ?B)) \<le> (1 - eps) * (sA * sB)"
      using prod m0 by (rule mult_left_mono)
    moreover have "(1 - eps) * (sA * sB) \<le> den"
      unfolding den_def using rnd_bounds(1)[OF rel] sA0 sB0 by simp
    moreover have "(1 - eps) * (((1 - eps) ^ 7 * sqrt ?A) * ((1 - eps) ^ 7 * sqrt ?B))
                   = (1 - eps) ^ 15 * (sqrt ?A * sqrt ?B)"
      by (simp add: power_Suc numeral_eq_Suc mult_ac)
    ultimately show ?thesis by simp
  qed
  have den0: "0 \<le> den"
    using denlo m0 A0 B0
    by (meson mult_nonneg_nonneg order_trans real_sqrt_ge_zero zero_le_power)
  have res: "cosineSimilarityWith rnd u v = (if den = 0 then 0 else rnd (D' / den))"
    by (simp add: cosineSimilarityWith_def Let_def D'_def A'_def B'_def sA_def sB_def den_def)
  have cs: "?D \<le> sqrt ?A * sqrt ?B"
  proof -
    have "?D\<^sup>2 \<le> ?A * ?B" by (rule cauchy_schwarz)
    then have "sqrt (?D\<^sup>2) \<le> sqrt (?A * ?B)" by (rule real_sqrt_le_mono)
    then show ?thesis using D0 by (simp add: real_sqrt_mult)
  qed
  show nonneg: "0 \<le> cosineSimilarityWith rnd u v"
  proof (cases "den = 0")
    case True
    then show ?thesis by (simp add: res)
  next
    case False
    then have "0 \<le> D' / den" using D'0 den0 by simp
    from rnd_bounds(1)[OF rel this] have "0 \<le> rnd (D' / den)"
      using m0 \<open>0 \<le> D' / den\<close> by (meson mult_nonneg_nonneg order_trans)
    then show ?thesis using False by (simp add: res)
  qed
  have e53: "(1::real) / 2 ^ 53 < 1" by simp
  have mpos: "0 < (1 - eps) ^ 15" using eps(2) e53 by simp
  have bound0: "0 \<le> (1 + eps) ^ 12 / (1 - eps) ^ 15" using p0 mpos by simp
  show "cosineSimilarityWith rnd u v \<le> (1 + eps) ^ 12 / (1 - eps) ^ 15"
  proof (cases "den = 0")
    case True
    then show ?thesis using bound0 by (simp add: res)
  next
    case False
    then have denpos: "0 < den" using den0 by simp
    have q0: "0 \<le> D' / den" using D'0 den0 by simp
    have r1: "rnd (D' / den) \<le> (1 + eps) * (D' / den)" by (rule rnd_bounds(2)[OF rel q0])
    show ?thesis
    proof (cases "sqrt ?A * sqrt ?B = 0")
      case True
      then have "?D \<le> 0" using cs by (simp only:)
      then have "D' \<le> 0" using Dhi D0 by simp
      then have "D' = 0" using D'0 by simp
      then show ?thesis using False bound0 by (simp add: res rnd_zero[OF rel])
    next
      case P: False
      have Ppos: "0 < sqrt ?A * sqrt ?B"
        using P A0 B0 by (simp add: less_le)
      have lowpos: "0 < (1 - eps) ^ 15 * (sqrt ?A * sqrt ?B)"
        using mpos Ppos by simp
      have "D' \<le> (1 + eps) ^ 11 * (sqrt ?A * sqrt ?B)"
      proof -
        have "(1 + eps) ^ 11 * ?D \<le> (1 + eps) ^ 11 * (sqrt ?A * sqrt ?B)"
          using cs p0 by (intro mult_left_mono) simp_all
        then show ?thesis using Dhi by linarith
      qed
      then have "D' / den \<le> ((1 + eps) ^ 11 * (sqrt ?A * sqrt ?B))
                             / ((1 - eps) ^ 15 * (sqrt ?A * sqrt ?B))"
        using denlo lowpos D'0 by (intro frac_le) simp_all
      also have "\<dots> = (1 + eps) ^ 11 / (1 - eps) ^ 15"
        by (rule mult_divide_mult_cancel_right[OF P])
      finally have q: "D' / den \<le> (1 + eps) ^ 11 / (1 - eps) ^ 15" .
      have "(1 + eps) * (D' / den) \<le> (1 + eps) * ((1 + eps) ^ 11 / (1 - eps) ^ 15)"
        using q p0 by (rule mult_left_mono)
      also have "\<dots> = (1 + eps) ^ 12 / (1 - eps) ^ 15" by (simp add: power_Suc numeral_eq_Suc)
      finally have "(1 + eps) * (D' / den) \<le> (1 + eps) ^ 12 / (1 - eps) ^ 15" .
      with r1 have "rnd (D' / den) \<le> (1 + eps) ^ 12 / (1 - eps) ^ 15" by (rule order_trans)
      then show ?thesis using False by (simp only: res if_False)
    qed
  qed
  show "cosineSimilarityWith rnd u v = 0" if "magnitude u = 0 \<or> magnitude v = 0"
  proof -
    have mag: "magnitude u = sqrt ?A" "magnitude v = sqrt ?B"
      by (simp_all add: magnitude_def dotOver_def)
    from that have "sA = 0 \<or> sB = 0"
    proof
      assume "magnitude u = 0"
      then have "?A = 0" by (simp add: mag)
      then have "A' \<le> 0" using Ahi by simp
      moreover have "0 \<le> A'" using Alo \<open>?A = 0\<close> by simp
      ultimately have "A' = 0" by simp
      then show ?thesis by (simp add: sA_def rnd_zero[OF rel])
    next
      assume "magnitude v = 0"
      then have "?B = 0" by (simp add: mag)
      then have "B' \<le> 0" using Bhi by simp
      moreover have "0 \<le> B'" using Blo \<open>?B = 0\<close> by simp
      ultimately have "B' = 0" by simp
      then show ?thesis by (simp add: sB_def rnd_zero[OF rel])
    qed
    then have "den = 0" by (auto simp: den_def rnd_zero[OF rel])
    then show ?thesis by (simp add: res)
  qed
qed


lemma cosineSimilarityWith_rounded:
  assumes "\<And>d. 0 \<le> u d" and "\<And>d. 0 \<le> v d"
  shows "0 \<le> cosineSimilarityWith roundUnbounded u v"
    and "cosineSimilarityWith roundUnbounded u v \<le> 1 + 1 / 2 ^ 48"
    and "magnitude u = 0 \<or> magnitude v = 0 \<Longrightarrow> cosineSimilarityWith roundUnbounded u v = 0"
proof -
  have eps: "(0::real) \<le> 1 / 2 ^ 53" "(1::real) / 2 ^ 53 \<le> 1 / 2 ^ 53" by simp_all
  note r = cosineSimilarityWith_range[where rnd = roundUnbounded and eps = "1 / 2 ^ 53",
      OF roundUnbounded_error eps assms]
  show "0 \<le> cosineSimilarityWith roundUnbounded u v" by (rule r(1))
  have "(0::real) < (1 - 1 / 2 ^ 53) ^ 15" by simp
  then have "(1 + 1 / 2 ^ 53 :: real) ^ 12 / (1 - 1 / 2 ^ 53) ^ 15 \<le> 1 + 1 / 2 ^ 48"
    using rounding_budget[OF eps] by (simp only: pos_divide_le_eq)
  with r(2) show "cosineSimilarityWith roundUnbounded u v \<le> 1 + 1 / 2 ^ 48"
    by (rule order_trans)
  show "cosineSimilarityWith roundUnbounded u v = 0" if "magnitude u = 0 \<or> magnitude v = 0"
    using that by (rule r(3))
qed

text \<open>In exact arithmetic the bound is 1, by the Cauchy-Schwarz inequality.\<close>

lemma cosineSimilarityWith_exact:
  assumes "\<And>d. 0 \<le> u d" and "\<And>d. 0 \<le> v d"
  shows "0 \<le> cosineSimilarityWith (\<lambda>x. x) u v" and "cosineSimilarityWith (\<lambda>x. x) u v \<le> 1"
proof -
  have rel: "\<And>x::real. \<bar>x - x\<bar> \<le> 0 * \<bar>x\<bar>" by simp
  have eps: "(0::real) \<le> 0" "(0::real) \<le> 1 / 2 ^ 53" by simp_all
  note r = cosineSimilarityWith_range[where rnd = "\<lambda>x. x" and eps = 0, OF rel eps assms]
  show "0 \<le> cosineSimilarityWith (\<lambda>x. x) u v" by (rule r(1))
  show "cosineSimilarityWith (\<lambda>x. x) u v \<le> 1" using r(2) by simp
qed

subsection \<open>The program away from overflow and underflow\<close>

definition sumJs ::
  "VectorDimension list \<Rightarrow> UserVector \<Rightarrow> UserVector \<Rightarrow> JsNumber \<Rightarrow> JsNumber" where
  "sumJs ds a b x = fold (\<lambda>d acc. jsAdd acc (jsMul (Num (a d)) (Num (b d)))) ds x"

lemma fold_cosineStep:
  "fold (cosineStep u v) ds (x, y, z) = (sumJs ds u v x, sumJs ds u u y, sumJs ds v v z)"
  by (induction ds arbitrary: x y z) (simp_all add: sumJs_def cosineStep_def Let_def)

lemma sumJs_agree:
  assumes a: "\<And>d. inReach 250 (a d)" and b: "\<And>d. inReach 250 (b d)"
    and x: "inReach (500 + k) x" and k: "k + length ds \<le> 10"
  shows "sumJs ds a b (Num x) = Num (sumRounded roundUnbounded ds a b x)
         \<and> inReach (500 + k + length ds) (sumRounded roundUnbounded ds a b x)"
  using x k
proof (induction ds arbitrary: x k)
  case Nil
  then show ?case by (simp add: sumJs_def sumRounded_def)
next
  case (Cons d ds)
  define t where "t = a d * b d"
  define q where "q = roundUnbounded t"
  define y where "y = x + q"
  have "inReach (250 + 250) t" unfolding t_def using a b by (rule inReach_mult)
  then have t: "inReach 500 t" by simp
  have nt: "number t = Num q" unfolding q_def using t by (rule number_within) simp
  have "inReach 500 q" unfolding q_def using t by (rule inReach_round)
  then have q: "inReach (500 + k) q" by (rule inReach_mono) simp
  have y: "inReach (Suc (500 + k)) y" unfolding y_def using Cons.prems(1) q by (rule inReach_add)
  have k1: "Suc k + length ds \<le> 10" using Cons.prems(2) by simp
  have ny: "number y = Num (roundUnbounded y)" using y by (rule number_within) (use k1 in simp)
  have ry: "inReach (500 + Suc k) (roundUnbounded y)" using inReach_round[OF y] by simp
  from Cons.IH[OF ry k1]
  have IH: "sumJs ds a b (Num (roundUnbounded y)) = Num (sumRounded roundUnbounded ds a b (roundUnbounded y))"
    "inReach (500 + Suc k + length ds) (sumRounded roundUnbounded ds a b (roundUnbounded y))"
    by simp_all
  have sj: "sumJs (d # ds) a b (Num x) = sumJs ds a b (Num (roundUnbounded y))"
    by (simp add: sumJs_def t_def[symmetric] nt y_def[symmetric] ny)
  have sr: "sumRounded roundUnbounded (d # ds) a b x = sumRounded roundUnbounded ds a b (roundUnbounded y)"
    by (simp add: sumRounded_def y_def q_def t_def)
  show ?case unfolding sj sr using IH by (simp add: add.assoc)
qed

lemma sumJs_from_zero:
  assumes a: "\<And>d. inReach 250 (a d)" and b: "\<And>d. inReach 250 (b d)"
  shows "sumJs VECTOR_DIMENSIONS a b (Num 0) = Num (sumRounded roundUnbounded VECTOR_DIMENSIONS a b 0)"
    and "inReach 510 (sumRounded roundUnbounded VECTOR_DIMENSIONS a b 0)"
proof -
  have l: "length VECTOR_DIMENSIONS = 10" by (simp add: VECTOR_DIMENSIONS_def)
  have "sumJs VECTOR_DIMENSIONS a b (Num 0) = Num (sumRounded roundUnbounded VECTOR_DIMENSIONS a b 0)
        \<and> inReach (500 + 0 + length VECTOR_DIMENSIONS) (sumRounded roundUnbounded VECTOR_DIMENSIONS a b 0)"
    by (rule sumJs_agree[OF a b]) (simp_all add: l)
  then show "sumJs VECTOR_DIMENSIONS a b (Num 0) = Num (sumRounded roundUnbounded VECTOR_DIMENSIONS a b 0)"
    and "inReach 510 (sumRounded roundUnbounded VECTOR_DIMENSIONS a b 0)"
    by (simp_all add: l)
qed

lemma cosineSimilarity_agree:
  assumes u: "\<And>d. inReach 250 (u d)" and v: "\<And>d. inReach 250 (v d)"
  shows "cosineSimilarity u v = Num (cosineSimilarityWith roundUnbounded u v)"
proof -
  define D where "D = sumRounded roundUnbounded VECTOR_DIMENSIONS u v 0"
  define A where "A = sumRounded roundUnbounded VECTOR_DIMENSIONS u u 0"
  define B where "B = sumRounded roundUnbounded VECTOR_DIMENSIONS v v 0"
  define sA where "sA = roundUnbounded (sqrt A)"
  define sB where "sB = roundUnbounded (sqrt B)"
  define den where "den = roundUnbounded (sA * sB)"
  have sums: "fold (cosineStep u v) VECTOR_DIMENSIONS (Num 0, Num 0, Num 0) = (Num D, Num A, Num B)"
    by (simp add: fold_cosineStep D_def A_def B_def sumJs_from_zero(1)[OF u v]
          sumJs_from_zero(1)[OF u u] sumJs_from_zero(1)[OF v v])
  have D: "inReach 510 D" unfolding D_def using u v by (rule sumJs_from_zero(2))
  have A: "inReach 510 A" unfolding A_def using u u by (rule sumJs_from_zero(2))
  have B: "inReach 510 B" unfolding B_def using v v by (rule sumJs_from_zero(2))
  have qA: "inReach 255 (sqrt A)" using A by (intro inReach_sqrt) simp
  have qB: "inReach 255 (sqrt B)" using B by (intro inReach_sqrt) simp
  have A0: "\<not> A < 0" using inReach_nonneg[OF A] by simp
  have B0: "\<not> B < 0" using inReach_nonneg[OF B] by simp
  have jA: "jsSqrt (Num A) = Num sA"
    using A0 number_within[OF qA] by (simp add: sA_def)
  have jB: "jsSqrt (Num B) = Num sB"
    using B0 number_within[OF qB] by (simp add: sB_def)
  have rA: "inReach 255 sA" unfolding sA_def using qA by (rule inReach_round)
  have rB: "inReach 255 sB" unfolding sB_def using qB by (rule inReach_round)
  have "inReach (255 + 255) (sA * sB)" using rA rB by (rule inReach_mult)
  then have p: "inReach 510 (sA * sB)" by simp
  have jden: "jsMul (Num sA) (Num sB) = Num den"
    using number_within[OF p] by (simp add: den_def)
  have rden: "inReach 510 den" unfolding den_def using p by (rule inReach_round)
  have js: "cosineSimilarity u v = (if den = 0 then Num 0 else jsDiv (Num D) (Num den))"
    by (simp add: cosineSimilarity_def sums jA jB jden Let_def
          del: jsSqrt.simps jsMul.simps jsDiv.simps)
  have re: "cosineSimilarityWith roundUnbounded u v = (if den = 0 then 0 else roundUnbounded (D / den))"
    by (simp add: cosineSimilarityWith_def Let_def D_def A_def B_def sA_def sB_def den_def)
  show ?thesis
  proof (cases "den = 0")
    case True
    then show ?thesis by (simp add: js re)
  next
    case False
    have "inReach (2 * 510) (D / den)" using D rden False by (rule inReach_divide)
    then have "number (D / den) = Num (roundUnbounded (D / den))"
      by (rule number_within) simp
    then show ?thesis using False by (simp add: js re)
  qed
qed

subsection \<open>Two runs of \<open>cosineSimilarity\<close>\<close>

text \<open>A vector with three components 1 and seven components 0, compared with itself.\<close>

definition threeOnes :: UserVector where
  "threeOnes = (\<lambda>d. if d = Meat \<or> d = Seafood \<or> d = Noodle then 1 else 0)"

lemma roundUnbounded_small_ints:
  "roundUnbounded 1 = 1" "roundUnbounded 2 = 2" "roundUnbounded 3 = 3"
proof -
  show "roundUnbounded 1 = 1"
    using roundUnbounded_eval[OF ulp_negative_power[of 52], of 1]
    by (simp add: roundHalfEven_def Let_def)
  show "roundUnbounded 2 = 2"
    using roundUnbounded_eval[OF ulp_negative_power[of 51], of 2]
    by (simp add: roundHalfEven_def Let_def)
  show "roundUnbounded 3 = 3"
    using roundUnbounded_eval[OF ulp_negative_power[of 51], of 3]
    by (simp add: roundHalfEven_def Let_def)
qed

lemma sums_threeOnes:
  "sumRounded roundUnbounded VECTOR_DIMENSIONS threeOnes threeOnes 0 = 3"
  by (simp add: sumRounded_def VECTOR_DIMENSIONS_def threeOnes_def roundUnbounded_small_ints)

lemma roundUnbounded_sqrt3: "roundUnbounded (sqrt 3) = 7800463371553962 / 2 ^ 52"
proof -
  have lo: "(7800463371553962 - 1 / 2) / 2 ^ 52 < sqrt 3"
    by (rule real_less_rsqrt) (simp add: power2_eq_square)
  have hi: "sqrt 3 < (7800463371553962 + 1 / 2) / 2 ^ 52"
    by (rule real_less_lsqrt) (simp_all add: power2_eq_square)
  have lo': "15600926743107923 < sqrt 3 * 9007199254740992"
    using lo by (simp add: field_simps)
  have hi': "sqrt 3 * 9007199254740992 < 15600926743107925"
    using hi by (simp add: field_simps)
  have eq: "sqrt 3 / (1 / 2 ^ 52) = sqrt 3 * 4503599627370496" by simp
  have near: "\<bar>sqrt 3 / (1 / 2 ^ 52) - of_int 7800463371553962\<bar> < 1 / 2"
    unfolding eq abs_less_iff using lo' hi' by simp
  have ge: "2 ^ 52 * (1 / 2 ^ 52) \<le> sqrt 3" by simp
  have "sqrt 3 < 2" by (rule real_less_lsqrt) simp_all
  then have lt: "sqrt 3 < 2 ^ 53 * (1 / 2 ^ 52)" by simp
  have "roundUnbounded (sqrt 3) = of_int (roundHalfEven (sqrt 3 / (1 / 2 ^ 52))) * (1 / 2 ^ 52)"
    by (rule roundUnbounded_eval[OF ulp_negative_power[of 52] ge lt])
  then show ?thesis by (simp only: roundHalfEven_near[OF near])
qed

lemma roundUnbounded_square:
  "roundUnbounded (7800463371553962 / 2 ^ 52 * (7800463371553962 / 2 ^ 52)) = 6755399441055743 / 2 ^ 51"
  using roundUnbounded_eval[OF ulp_negative_power[of 51],
          of "7800463371553962 / 2 ^ 52 * (7800463371553962 / 2 ^ 52)"]
  by (simp add: roundHalfEven_def Let_def)

lemma roundUnbounded_quotient:
  "roundUnbounded (3 / (6755399441055743 / 2 ^ 51)) = 1 + 1 / 2 ^ 52"
  using roundUnbounded_eval[OF ulp_negative_power[of 52], of "3 / (6755399441055743 / 2 ^ 51)"]
  by (simp add: roundHalfEven_def Let_def)

lemma cosineSimilarityWith_threeOnes:
  "cosineSimilarityWith roundUnbounded threeOnes threeOnes = 1 + 1 / 2 ^ 52"
proof -
  have den: "roundUnbounded (roundUnbounded (sqrt 3) * roundUnbounded (sqrt 3)) = 6755399441055743 / 2 ^ 51"
    unfolding roundUnbounded_sqrt3 by (rule roundUnbounded_square)
  have "cosineSimilarityWith roundUnbounded threeOnes threeOnes =
      (if roundUnbounded (roundUnbounded (sqrt 3) * roundUnbounded (sqrt 3)) = 0 then 0
       else roundUnbounded (3 / roundUnbounded (roundUnbounded (sqrt 3) * roundUnbounded (sqrt 3))))"
    unfolding cosineSimilarityWith_def sums_threeOnes Let_def by simp
  also have "\<dots> = roundUnbounded (3 / (6755399441055743 / 2 ^ 51))"
    unfolding den by simp
  finally show ?thesis unfolding roundUnbounded_quotient .
qed

lemma inReach_threeOnes: "inReach 250 (threeOnes d)"
  by (simp add: inReach_def threeOnes_def)

text \<open>A vector with all ten components \<open>2 ^ 600\<close>, compared with the zero vector: the squares
  overflow.\<close>

definition huge :: real where
  "huge = 2 ^ 600"

definition hugeVector :: UserVector where
  "hugeVector = (\<lambda>d. huge)"

definition zeroVector :: UserVector where
  "zeroVector = (\<lambda>d. 0)"

lemma roundBinary64_power: "roundBinary64 (2 ^ n) = 2 ^ n"
proof -
  define ulp :: real where "ulp = 2 powr of_int (int n - 52)"
  have u0: "0 < ulp" by (simp add: ulp_def)
  have "2 powr of_int (int n) = 2 ^ 52 * ulp"
    by (simp add: ulp_def powr_diff powr_realpow[symmetric])
  then have x: "(2::real) ^ n = 2 ^ 52 * ulp" by (simp add: powr_realpow)
  have "\<lfloor>log 2 \<bar>2 ^ n\<bar>\<rfloor> = int n" by simp
  then have m: "max \<lfloor>log 2 \<bar>2 ^ n :: real\<bar>\<rfloor> (- 1022) = int n" by simp
  have "roundBinary64 (2 ^ n) = of_int (roundHalfEven (2 ^ n / ulp)) * ulp"
    unfolding roundBinary64_def Let_def m ulp_def by simp
  also have "2 ^ n / ulp = of_int (2 ^ 52)" using u0 by (simp add: x)
  also have "of_int (roundHalfEven (of_int (2 ^ 52))) * ulp = 2 ^ 52 * ulp"
    by (simp only: roundHalfEven_int) simp
  finally show ?thesis by (simp only: x)
qed

lemma number_overflow: "number (huge * huge) = PosInfinity"
proof -
  have e: "huge * huge = 2 ^ (600 + 600)" unfolding huge_def by (rule power_add[symmetric])
  have "(2::real) ^ 1024 \<le> 2 ^ (600 + 600)" by (intro power_increasing) simp_all
  then show ?thesis unfolding e number_def Let_def roundBinary64_power by (simp only: if_True)
qed

lemma cosineStep_huge:
  "cosineStep hugeVector zeroVector d (Num 0, x, Num 0)
   = (Num 0, jsAdd x PosInfinity, Num 0)"
  by (simp add: cosineStep_def hugeVector_def zeroVector_def Let_def number_overflow)

lemma cosineSimilarity_huge: "cosineSimilarity hugeVector zeroVector = NaN"
  by (simp add: cosineSimilarity_def VECTOR_DIMENSIONS_def cosineStep_huge Let_def infinityTimes_def)


section \<open>A worked example\<close>

text \<open>A neutral user vector, venues that share their coordinates, and a two-hour walk from
  10:00 (time zone offset 0).\<close>

definition exampleVector :: "string \<rightharpoonup> real" where
  "exampleVector =
     [''Meat'' \<mapsto> 0.5, ''Seafood'' \<mapsto> 0.5, ''Noodle'' \<mapsto> 0.5, ''Rice'' \<mapsto> 0.5,
      ''Bread'' \<mapsto> 0.5, ''Quiet'' \<mapsto> 0.5, ''Active'' \<mapsto> 0.5, ''Indoor'' \<mapsto> 0.5,
      ''Nature'' \<mapsto> 0.5, ''Luxury'' \<mapsto> 0.5]"

definition examplePlace :: "string \<Rightarrow> PlaceType \<Rightarrow> Place" where
  "examplePlace i t =
     \<lparr>placeId = i, name = ''Venue'', nameKo = ''Venue'', ptype = t, lat = 36.35, lng = 127.38,
      isIndoor = True, description = [], themes = [], mealType = None,
      estimatedDuration = Some 60\<rparr>"

definition exampleOptions :: CourseGenerationOptions where
  "exampleOptions =
     \<lparr>startLocation = Some (examplePlace ''A'' Landmark),
      userPreferences = exampleVector,
      weather = \<lparr>temp = 20, isRainy = False\<rparr>,
      startTime = 36000000,
      endLocation = None,
      endTime = None,
      mustVisitPlaces = None,
      lockedSteps = None,
      mealWindows = None,
      companion = None,
      transport = None,
      intensity = None,
      duration = Some 2\<rparr>"

lemma haversineDistance_same [simp]: "haversineDistance a b a b = 0"
  by (simp add: haversineDistance_def toRad_def atan2_def)

lemma isUserVector_example [simp]: "isUserVector exampleVector"
  by (simp add: isUserVector_def VECTOR_DIMENSIONS_def dimensionName_def exampleVector_def
        del: not_None_eq)

lemma addMinutes_int [simp]: "addMinutes d (of_int k) = d + k * 60000"
  by (simp add: addMinutes_def newDate_def toIntegerOrInfinity_def) linarith

lemma effectiveMaxEndTime_example [simp]: "effectiveMaxEndTime exampleOptions = 43200000"
  using addMinutes_int[of 36000000 120]
  by (simp add: effectiveMaxEndTime_def exampleOptions_def durationHours_def)

lemma minutesSinceMidnight_10 [simp]: "minutesSinceMidnight 0 36000000 = 600"
  by (simp add: minutesSinceMidnight_def getHours_def getMinutes_def)

lemma travelMinutes_zero [simp]: "travelMinutes 0 t = (if t = Car then 10 else 0)"
  by (simp add: travelMinutes_def)

lemma addMinutes_zero [simp]: "addMinutes d 0 = d"
  using addMinutes_int[of d 0] by simp

lemma addMinutes_60 [simp]: "addMinutes d 60 = d + 3600000"
  using addMinutes_int[of d 60] by simp

definition exampleEnv :: "Place list \<Rightarrow> GenEnv" where
  "exampleEnv pool = genEnv 0 pool exampleOptions (asUserVector exampleVector)"

definition exampleStepA :: CourseStep where
  "exampleStepA = \<lparr>place = examplePlace ''A'' Landmark, stepStartTime = 36000000,
                    stepEndTime = 36000000, travelTime = 0\<rparr>"

definition exampleStepB :: CourseStep where
  "exampleStepB = \<lparr>place = examplePlace ''B'' Activity, stepStartTime = 36000000,
                    stepEndTime = 39600000, travelTime = 0\<rparr>"

lemma exampleEnv_eq:
  "exampleEnv pool =
     \<lparr>envTz = 0, allPlaces = pool, envMealWindows = None, envTransport = Foot,
      baseDuration = 90, maxEndTime = 43200000, userVector = asUserVector exampleVector,
      envCompanion = Solo, envWeather = \<lparr>temp = 20, isRainy = False\<rparr>,
      targetEndLocation = None\<rparr>"
  by (simp add: exampleEnv_def genEnv_def) (simp add: exampleOptions_def)

lemma findNext_example1:
  "findNext (exampleEnv [examplePlace ''B'' Activity])
            (initialState (examplePlace ''A'' Landmark) 36000000)
   = Some \<lparr>fPlace = examplePlace ''B'' Activity, fDistanceKm = 0, fStartAt = 36000000,
            fEndAt = 39600000, fIsMeal = False\<rparr>"
  by (simp add: findNext_def findPlaceForTime_def exampleEnv_eq initialState_def
        stepForTime_def lunchWindowOf_def dinnerWindowOf_def DEFAULT_LUNCH_WINDOW_def
        DEFAULT_DINNER_WINDOW_def examplePlace_def findStep_def
        startInWindow_def durationOr_def Let_def)

lemma fillLoop_stop_none: "findNext e s = None \<Longrightarrow> fillLoop e s = s"
  by (subst fillLoop.simps) (simp add: Let_def)

lemma fillLoop_stop_time: "\<not> currentTime s < maxEndTime e \<Longrightarrow> fillLoop e s = s"
  by (subst fillLoop.simps) simp

lemma fillLoop_step:
  assumes "findNext e s = Some f" and "currentTime s < maxEndTime e"
    and "\<not> (of_int (maxEndTime e) - of_int (currentTime s)) / (60000::real) < 30"
  shows "fillLoop e s = fillLoop e (appendFound e f s)"
  using assms findNext_props(3)[OF assms(1)]
  by (subst fillLoop.simps) (simp add: Let_def)

definition exampleState1 :: GenState where
  "exampleState1 =
     \<lparr>sequenceAcc = [examplePlace ''A'' Landmark, examplePlace ''B'' Activity],
      courseSteps = [exampleStepA, exampleStepB],
      visited = {''B'', ''A''},
      selectedPlaces = [examplePlace ''A'' Landmark, examplePlace ''B'' Activity],
      totalDistanceAcc = 0,
      currentPlace = examplePlace ''B'' Activity,
      currentTime = 39600000,
      hasHadLunch = False,
      hasHadDinner = False\<rparr>"

lemma appendFound_example:
  "appendFound (exampleEnv pool)
        \<lparr>fPlace = examplePlace ''B'' Activity, fDistanceKm = 0, fStartAt = 36000000,
            fEndAt = 39600000, fIsMeal = False\<rparr>
        (initialState (examplePlace ''A'' Landmark) 36000000)
   = exampleState1"
  by (simp add: appendFound_def exampleState1_def initialState_def exampleStepA_def
        exampleStepB_def exampleEnv_eq)
     (simp add: examplePlace_def)

lemma findNext_example2:
  "findNext (exampleEnv [examplePlace ''B'' Activity]) exampleState1 = None"
  by (simp add: findNext_def findPlaceForTime_def exampleEnv_eq exampleState1_def
        examplePlace_def Let_def)

lemma fillLoop_example:
  "fillLoop (exampleEnv [examplePlace ''B'' Activity])
            (initialState (examplePlace ''A'' Landmark) 36000000)
   = exampleState1"
proof -
  let ?e = "exampleEnv [examplePlace ''B'' Activity]"
  let ?s0 = "initialState (examplePlace ''A'' Landmark) 36000000"
  have "fillLoop ?e ?s0 = fillLoop ?e exampleState1"
    using fillLoop_step[OF findNext_example1]
    by (simp add: appendFound_example) (simp add: exampleEnv_eq initialState_def)
  then show ?thesis by (simp add: fillLoop_stop_none[OF findNext_example2])
qed

definition exampleCourse :: GeneratedCourse where
  "exampleCourse =
     \<lparr>sequence = [examplePlace ''A'' Landmark, examplePlace ''B'' Activity],
      steps = [exampleStepA, exampleStepB],
      totalDistance = 0,
      estimatedDurationMin = 60\<rparr>"

lemma generateCourse_example:
  "generateCourse 0 [examplePlace ''B'' Activity] exampleOptions = Inr (Some exampleCourse)"
proof -
  have "anchorsToVisit exampleOptions = []"
    by (simp add: anchorsToVisit_def exampleOptions_def)
  moreover have "startLocation exampleOptions = Some (examplePlace ''A'' Landmark)"
    "startTime exampleOptions = 36000000" "userPreferences exampleOptions = exampleVector"
    by (simp_all add: exampleOptions_def)
  moreover have "appendEndLocation (exampleEnv [examplePlace ''B'' Activity]) False exampleState1
                 = exampleState1"
    by (simp add: appendEndLocation_def exampleEnv_eq)
  moreover have "finishCourse 36000000 exampleState1 = exampleCourse"
    by (simp add: finishCourse_def exampleState1_def exampleCourse_def exampleStepB_def)
  ultimately show ?thesis
    by (simp add: generateCourse_def convertToUserVector_def fillLoop_example
          exampleEnv_def[symmetric] Let_def)
qed

section \<open>Further examples\<close>

text \<open>The legacy preferences of the application (\<open>INITIAL_PREFERENCES\<close>).\<close>

definition INITIAL_PREFERENCES :: "string \<rightharpoonup> real" where
  "INITIAL_PREFERENCES =
     [''Meat'' \<mapsto> 1.0, ''Seafood'' \<mapsto> 1.0, ''Quiet'' \<mapsto> 1.0, ''Active'' \<mapsto> 1.0,
      ''Indoor'' \<mapsto> 1.0, ''Outdoor'' \<mapsto> 1.0, ''Gourmet'' \<mapsto> 1.0, ''Nightlife'' \<mapsto> 1.0,
      ''Shopping'' \<mapsto> 1.0, ''Culture'' \<mapsto> 1.0, ''Cafe'' \<mapsto> 1.0]"

definition legacyOptions :: CourseGenerationOptions where
  "legacyOptions = exampleOptions\<lparr>userPreferences := INITIAL_PREFERENCES\<rparr>"

lemma not_isUserVector_legacy: "\<not> isUserVector INITIAL_PREFERENCES"
  by (simp add: isUserVector_def VECTOR_DIMENSIONS_def dimensionName_def INITIAL_PREFERENCES_def
        del: not_None_eq)

lemma generateCourse_null_iff:
  "(generateCourse tz pool options = Inr None) = (startLocation options = None)"
  by (simp add: generateCourse_def Let_def split: option.splits sum.splits)

lemma generateCourse_returns_with_vector:
  assumes "startLocation options = Some start" and "isUserVector (userPreferences options)"
  shows "\<exists>c. generateCourse tz pool options = Inr (Some c)"
  using assms by (simp add: generateCourse_def convertToUserVector_def Let_def)

lemma generateCourse_throws_iff:
  "(\<exists>err. generateCourse tz pool options = Inl err)
   = (startLocation options \<noteq> None \<and> \<not> isUserVector (userPreferences options))"
  by (auto simp: generateCourse_def convertToUserVector_def Let_def split: option.splits)





lemma placeToFeatureVector_cong:
  assumes "name p = name q" and "description p = description q" and "ptype p = ptype q"
    and "isIndoor p = isIndoor q"
  shows "placeToFeatureVector p = placeToFeatureVector q"
  unfolding placeToFeatureVector_def assms by (rule refl)

lemma calculateCompanionBonus_cong:
  assumes "name p = name q" and "ptype p = ptype q" and "isIndoor p = isIndoor q"
  shows "calculateCompanionBonus p c = calculateCompanionBonus q c"
  unfolding calculateCompanionBonus_def assms by (rule refl)

lemma calculateKeywordScore_cong:
  assumes "name p = name q"
  shows "calculateKeywordScore p = calculateKeywordScore q"
  unfolding calculateKeywordScore_def assms by (rule refl)

lemma calculateDiversityPenalty_cong:
  assumes "ptype p = ptype q"
  shows "calculateDiversityPenalty p sel = calculateDiversityPenalty q sel"
  unfolding calculateDiversityPenalty_def assms by (rule refl)

lemma calculatePlaceScore_cong:
  assumes "name p = name q" and "description p = description q" and "ptype p = ptype q"
    and "isIndoor p = isIndoor q"
  shows "calculatePlaceScore p ctx = calculatePlaceScore q ctx"
  unfolding calculatePlaceScore_def isIndoorPlace_def
    placeToFeatureVector_cong[OF assms] calculateCompanionBonus_cong[OF assms(1,3,4)]
    calculateKeywordScore_cong[OF assms(1)] calculateDiversityPenalty_cong[OF assms(3)] assms(4)
  by (rule refl)

definition exampleScore :: "PlaceType \<Rightarrow> ScoreContext \<Rightarrow> real" where
  "exampleScore t ctx = calculatePlaceScore (examplePlace [] t) ctx"

lemma calculatePlaceScore_example:
  "calculatePlaceScore (examplePlace i t) ctx = exampleScore t ctx"
  unfolding exampleScore_def
  by (rule calculatePlaceScore_cong) (simp_all add: examplePlace_def)

definition lockedOptions :: CourseGenerationOptions where
  "lockedOptions =
     exampleOptions\<lparr>lockedSteps := Some [1 \<mapsto> examplePlace ''C'' Activity],
                    duration := Some 1\<rparr>"

definition lockedPool :: "Place list" where
  "lockedPool = [examplePlace ''B'' Activity, examplePlace ''C'' Activity]"

lemma lockedEnv_eq:
  "genEnv 0 lockedPool lockedOptions (asUserVector exampleVector) =
     \<lparr>envTz = 0, allPlaces = lockedPool, envMealWindows = None, envTransport = Foot,
      baseDuration = 90, maxEndTime = 39600000, userVector = asUserVector exampleVector,
      envCompanion = Solo, envWeather = \<lparr>temp = 20, isRainy = False\<rparr>,
      targetEndLocation = None\<rparr>"
  using addMinutes_int[of 36000000 60]
  by (simp add: genEnv_def lockedOptions_def exampleOptions_def effectiveMaxEndTime_def
        durationHours_def)

lemma effectiveMaxEndTime_locked [simp]: "effectiveMaxEndTime lockedOptions = 39600000"
  using addMinutes_int[of 36000000 60]
  by (simp add: lockedOptions_def exampleOptions_def effectiveMaxEndTime_def durationHours_def)

lemma findNext_locked:
  "findNext (genEnv 0 lockedPool lockedOptions (asUserVector exampleVector))
            (initialState (examplePlace ''A'' Landmark) 36000000)
   = Some \<lparr>fPlace = examplePlace ''B'' Activity, fDistanceKm = 0, fStartAt = 36000000,
            fEndAt = 39600000, fIsMeal = False\<rparr>"
  unfolding lockedEnv_eq
  by (simp add: findNext_def findPlaceForTime_def initialState_def lockedPool_def
        stepForTime_def lunchWindowOf_def dinnerWindowOf_def DEFAULT_LUNCH_WINDOW_def
        DEFAULT_DINNER_WINDOW_def findStep_def startInWindow_def durationOr_def Let_def
        calculatePlaceScore_example)
     (simp add: examplePlace_def)

lemma appendFound_locked:
  "appendFound (genEnv 0 lockedPool lockedOptions (asUserVector exampleVector))
        \<lparr>fPlace = examplePlace ''B'' Activity, fDistanceKm = 0, fStartAt = 36000000,
            fEndAt = 39600000, fIsMeal = False\<rparr>
        (initialState (examplePlace ''A'' Landmark) 36000000)
   = exampleState1"
  unfolding lockedEnv_eq
  by (simp add: appendFound_def exampleState1_def initialState_def exampleStepA_def
        exampleStepB_def)
     (simp add: examplePlace_def)

definition lockedCourse :: GeneratedCourse where
  "lockedCourse =
     \<lparr>sequence = [examplePlace ''A'' Landmark, examplePlace ''B'' Activity],
      steps = [exampleStepA, exampleStepB],
      totalDistance = 0,
      estimatedDurationMin = 60\<rparr>"

lemma generateCourse_locked:
  "generateCourse 0 lockedPool lockedOptions = Inr (Some lockedCourse)"
proof -
  let ?e = "genEnv 0 lockedPool lockedOptions (asUserVector exampleVector)"
  let ?s0 = "initialState (examplePlace ''A'' Landmark) 36000000"
  have opts: "startLocation lockedOptions = Some (examplePlace ''A'' Landmark)"
    "startTime lockedOptions = 36000000" "userPreferences lockedOptions = exampleVector"
    "anchorsToVisit lockedOptions = []"
    by (simp_all add: lockedOptions_def exampleOptions_def anchorsToVisit_def)
  have "fillLoop ?e ?s0 = fillLoop ?e exampleState1"
    using fillLoop_step[OF findNext_locked]
    by (simp add: appendFound_locked) (simp add: lockedEnv_eq initialState_def)
  moreover have "fillLoop ?e exampleState1 = exampleState1"
    by (rule fillLoop_stop_time) (simp add: lockedEnv_eq exampleState1_def)
  moreover have "appendEndLocation ?e False exampleState1 = exampleState1"
    by (simp add: appendEndLocation_def lockedEnv_eq)
  moreover have "finishCourse 36000000 exampleState1 = lockedCourse"
    by (simp add: finishCourse_def exampleState1_def lockedCourse_def exampleStepB_def)
  ultimately show ?thesis
    by (simp add: generateCourse_def convertToUserVector_def opts Let_def)
qed

lemma generateCourse_lockedSteps_unused:
  "generateCourse tz pool (options\<lparr>lockedSteps := l\<rparr>) = generateCourse tz pool options"
proof -
  have "genEnv tz pool (options\<lparr>lockedSteps := l\<rparr>) uv = genEnv tz pool options uv" for uv
    by (simp add: genEnv_def effectiveMaxEndTime_def durationHours_def)
  moreover have "anchorsToVisit (options\<lparr>lockedSteps := l\<rparr>) = anchorsToVisit options"
    by (simp add: anchorsToVisit_def)
  ultimately show ?thesis
    by (simp add: generateCourse_def Let_def split: option.splits sum.splits)
qed

text \<open>\<open>pickCandidate\<close>, which the builder never calls, does honour a locked step.\<close>

lemma pickCandidate_locked:
  assumes "pcLockedSteps ctx = Some m" and "m (stepIndex + 1) = Some locked"
    and "placeId locked \<notin> pcVisited ctx" and "isValidForStep locked step"
    and "window step = None"
  shows "\<exists>r. pickCandidate tz pool stepIndex step ctx = Some r \<and> pkPlace r = locked"
  using assms
  by (simp add: pickCandidate_def pickLocked_def validateWindow_def Let_def)

section \<open>Properties\<close>

text \<open>
  Claim C9. For every distance \<open>d\<close> (non-negative or not), the travel time on foot is
  \<open>min(90, 12 d)\<close> minutes, and by car it is \<open>min(60, 3 d) + 10\<close>: the driving time is capped
  at 60 minutes before the 10 minutes of parking are added.
\<close>

theorem travelMinutes_formula:
  "travelMinutes d Foot = min 90 (12 * d) \<and> travelMinutes d Car = min 60 (3 * d) + 10"
  by (simp add: travelMinutes_def mult.commute)

text \<open>
  Claim C3. For every venue pool and every options record with a start venue, the
  itinerary returned by \<open>generateCourse\<close> has pairwise distinct venue ids: no id occurs
  twice in its sequence, and none occurs twice across its steps.
\<close>

theorem generateCourse_distinct_ids:
  assumes "generateCourse tz pool options = Inr (Some c)"
  shows "distinct (map placeId (sequence c))
         \<and> distinct (map (\<lambda>st. placeId (place st)) (steps c))"
proof -
  from assms obtain start uv where
    c: "c = finishCourse (startTime options)
               (appendEndLocation (genEnv tz pool options uv) False
                 (fillLoop (genEnv tz pool options uv)
                   (anchorFor (genEnv tz pool options uv) (anchorsToVisit options)
                     (initialState start (startTime options)))))"
    by (rule generateCourse_Some)
  let ?e = "genEnv tz pool options uv"
  let ?s2 = "fillLoop ?e (anchorFor ?e (anchorsToVisit options) (initialState start (startTime options)))"
  have "idsDistinct ?s2"
    by (intro idsDistinct_fillLoop idsDistinct_anchorFor idsDistinct_initial)
  from idsDistinct_final[OF this, of ?e]
  have d: "distinct (map placeId (sequenceAcc (appendEndLocation ?e False ?s2)))"
    and m: "map place (courseSteps (appendEndLocation ?e False ?s2))
             = sequenceAcc (appendEndLocation ?e False ?s2)" by simp_all
  have "map (\<lambda>st. placeId (place st)) (courseSteps (appendEndLocation ?e False ?s2))
        = map placeId (map place (courseSteps (appendEndLocation ?e False ?s2)))" by simp
  with d m show ?thesis unfolding c by (simp add: finishCourse_def Let_def del: map_map)
qed

theorem generateCourse_distinct_ids_witness:
  "generateCourse 0 [examplePlace ''B'' Activity] exampleOptions = Inr (Some exampleCourse)
   \<and> distinct (map placeId (sequence exampleCourse))
   \<and> distinct (map (\<lambda>st. placeId (place st)) (steps exampleCourse))"
  using generateCourse_distinct_ids[OF generateCourse_example] generateCourse_example by simp






text \<open>
  Claim C6. For every user vector with all ten dimensions in \<open>[0,1]\<close> and every venue,
  \<open>updateUserVector\<close> with LIKE decreases no dimension, with DISLIKE increases no
  dimension, and with either action returns a vector whose dimensions are all in \<open>[0,1]\<close>.
\<close>

theorem updateUserVector_monotone_bounded:
  assumes "\<And>d. 0 \<le> cur d \<and> cur d \<le> 1"
  shows "cur d \<le> updateUserVector pl LIKE cur d
         \<and> updateUserVector pl DISLIKE cur d \<le> cur d
         \<and> 0 \<le> updateUserVector pl action cur d
         \<and> updateUserVector pl action cur d \<le> 1"
proof -
  have up: "\<bar>toFixed3 (cur d + 1 / 10) - (cur d + 1 / 10)\<bar> \<le> 1 / 2000"
    and down: "\<bar>toFixed3 (cur d + - (1 / 5)) - (cur d + - (1 / 5))\<bar> \<le> 1 / 2000"
    by (rule toFixed3_close)+
  have range: "0 \<le> cur d" "cur d \<le> 1" using assms[of d] by simp_all
  have like: "updateUserVector pl LIKE cur d = max 0 (min 1 (toFixed3 (cur d + 1 / 10)))"
    by (simp add: updateUserVector_apply updateDelta_def)
  have dislike: "updateUserVector pl DISLIKE cur d = max 0 (min 1 (toFixed3 (cur d + - (1 / 5))))"
    by (simp add: updateUserVector_apply updateDelta_def)
  have "cur d \<le> max 0 (min 1 (toFixed3 (cur d + 1 / 10)))"
    using up range by linarith
  moreover have "max 0 (min 1 (toFixed3 (cur d + - (1 / 5)))) \<le> cur d"
    using down range by linarith
  moreover have "0 \<le> updateUserVector pl action cur d \<and> updateUserVector pl action cur d \<le> 1"
    by (simp add: updateUserVector_apply)
  ultimately show ?thesis by (simp only: like dislike)
qed

theorem updateUserVector_monotone_bounded_witness:
  "(\<forall>d. 0 \<le> INITIAL_USER_VECTOR d \<and> INITIAL_USER_VECTOR d \<le> 1)
   \<and> INITIAL_USER_VECTOR Meat
       \<le> updateUserVector (examplePlace ''B'' Activity) LIKE INITIAL_USER_VECTOR Meat
   \<and> updateUserVector (examplePlace ''B'' Activity) DISLIKE INITIAL_USER_VECTOR Meat
       \<le> INITIAL_USER_VECTOR Meat
   \<and> 0 \<le> updateUserVector (examplePlace ''B'' Activity) LIKE INITIAL_USER_VECTOR Meat
   \<and> updateUserVector (examplePlace ''B'' Activity) LIKE INITIAL_USER_VECTOR Meat \<le> 1"
proof -
  have h: "\<And>d. 0 \<le> INITIAL_USER_VECTOR d \<and> INITIAL_USER_VECTOR d \<le> 1"
    by (simp add: INITIAL_USER_VECTOR_def)
  show ?thesis
    using updateUserVector_monotone_bounded[of INITIAL_USER_VECTOR Meat
            "examplePlace ''B'' Activity" LIKE, OF h] h
    by simp
qed

text \<open>
  Claim C7, as the code has it. For every pair of vectors whose components are each 0 or
  between \<open>2 powr - 250\<close> and \<open>2 ^ 250\<close>, \<open>cosineSimilarity\<close> returns a finite number between 0
  and \<open>1 + 2 powr - 48\<close>, and it returns exactly 0 whenever one of the two vectors has
  magnitude 0. The value is computed in doubles: the rounding of the two square roots and of
  their product can leave the denominator below the dot product.
\<close>

theorem cosineSimilarity_rounded_range:
  assumes u: "\<And>d. u d = 0 \<or> (1 / 2 ^ 250 \<le> u d \<and> u d \<le> 2 ^ 250)"
    and v: "\<And>d. v d = 0 \<or> (1 / 2 ^ 250 \<le> v d \<and> v d \<le> 2 ^ 250)"
  shows "\<exists>r. cosineSimilarity u v = Num r \<and> 0 \<le> r \<and> r \<le> 1 + 1 / 2 ^ 48
             \<and> (magnitude u = 0 \<or> magnitude v = 0 \<longrightarrow> r = 0)"
proof -
  have ru: "\<And>d. inReach 250 (u d)" and rv: "\<And>d. inReach 250 (v d)"
    using u v by (simp_all add: inReach_def)
  have nu: "\<And>d. 0 \<le> u d" using ru by (rule inReach_nonneg)
  have nv: "\<And>d. 0 \<le> v d" using rv by (rule inReach_nonneg)
  have "cosineSimilarity u v = Num (cosineSimilarityWith roundUnbounded u v)"
    using ru rv by (rule cosineSimilarity_agree)
  moreover have "0 \<le> cosineSimilarityWith roundUnbounded u v"
    using nu nv by (rule cosineSimilarityWith_rounded(1))
  moreover have "cosineSimilarityWith roundUnbounded u v \<le> 1 + 1 / 2 ^ 48"
    using nu nv by (rule cosineSimilarityWith_rounded(2))
  moreover have "magnitude u = 0 \<or> magnitude v = 0 \<longrightarrow> cosineSimilarityWith roundUnbounded u v = 0"
    using cosineSimilarityWith_rounded(3)[of u v, OF nu nv] by blast
  ultimately show ?thesis by blast
qed

theorem cosineSimilarity_rounded_range_witness:
  "(\<forall>d. INITIAL_USER_VECTOR d = 0
        \<or> (1 / 2 ^ 250 \<le> INITIAL_USER_VECTOR d \<and> INITIAL_USER_VECTOR d \<le> 2 ^ 250))
   \<and> (\<forall>d. zeroVector d = 0 \<or> (1 / 2 ^ 250 \<le> zeroVector d \<and> zeroVector d \<le> 2 ^ 250))
   \<and> magnitude zeroVector = 0
   \<and> cosineSimilarity INITIAL_USER_VECTOR zeroVector = Num 0"
proof -
  have h: "\<And>d. INITIAL_USER_VECTOR d = 0
        \<or> (1 / 2 ^ 250 \<le> INITIAL_USER_VECTOR d \<and> INITIAL_USER_VECTOR d \<le> 2 ^ 250)"
    by (simp add: INITIAL_USER_VECTOR_def)
  have z: "\<And>d. zeroVector d = 0 \<or> (1 / 2 ^ 250 \<le> zeroVector d \<and> zeroVector d \<le> 2 ^ 250)"
    by (simp add: zeroVector_def)
  have m: "magnitude zeroVector = 0" by (simp add: magnitude_def zeroVector_def)
  show ?thesis
    using cosineSimilarity_rounded_range[of INITIAL_USER_VECTOR zeroVector, OF h z] h z m
    by auto
qed

text \<open>
  The claim as it was stated fails on the bound 1: for the vector with three components 1
  and seven components 0, compared with itself, the three sums are 3, both square roots
  round to \<open>7800463371553962 / 2 ^ 52\<close>, their product rounds to \<open>6755399441055743 / 2 ^ 51\<close>,
  which is below 3, and the quotient rounds to \<open>1 + 2 powr - 52\<close>.
\<close>

theorem cosineSimilarity_above_one:
  "cosineSimilarity threeOnes threeOnes = Num (1 + 1 / 2 ^ 52)
   \<and> \<not> 1 + 1 / 2 ^ 52 \<le> (1::real)"
  using cosineSimilarity_agree[OF inReach_threeOnes inReach_threeOnes]
  by (simp add: cosineSimilarityWith_threeOnes)

text \<open>
  Claim C8. The diversity multiplier is 0.6 to the power of the number of selected venues
  that share the venue's category: 1.0 when there is none (the first occurrence of the
  category), 0.6 with one, 0.36 with two, 0.216 with three.
\<close>

theorem calculateDiversityPenalty_power:
  "calculateDiversityPenalty pl selected = 0.6 ^ typeCount pl selected
   \<and> (typeCount pl selected = 0 \<longrightarrow> calculateDiversityPenalty pl selected = 1.0)
   \<and> (typeCount pl selected = 1 \<longrightarrow> calculateDiversityPenalty pl selected = 0.6)
   \<and> (typeCount pl selected = 2 \<longrightarrow> calculateDiversityPenalty pl selected = 0.36)
   \<and> (typeCount pl selected = 3 \<longrightarrow> calculateDiversityPenalty pl selected = 0.216)"
proof -
  have "calculateDiversityPenalty pl selected = 0.6 ^ typeCount pl selected"
    by (simp add: calculateDiversityPenalty_def typeCount_def Let_def)
  then show ?thesis by (simp add: power2_eq_square power3_eq_cube)
qed

theorem calculateDiversityPenalty_power_witness:
  "typeCount (examplePlace ''D'' Activity)
     [examplePlace ''A'' Landmark, examplePlace ''B'' Activity, examplePlace ''C'' Activity] = 2
   \<and> calculateDiversityPenalty (examplePlace ''D'' Activity)
        [examplePlace ''A'' Landmark, examplePlace ''B'' Activity, examplePlace ''C'' Activity]
       = 0.36"
proof -
  have c: "typeCount (examplePlace ''D'' Activity)
     [examplePlace ''A'' Landmark, examplePlace ''B'' Activity, examplePlace ''C'' Activity] = 2"
    by (simp add: typeCount_def examplePlace_def)
  show ?thesis
    using calculateDiversityPenalty_power[of "examplePlace ''D'' Activity"
        "[examplePlace ''A'' Landmark, examplePlace ''B'' Activity, examplePlace ''C'' Activity]"] c
    by simp
qed

text \<open>
  Claim C10. Every dimension of \<open>placeToFeatureVector\<close> is 0.5, 0.8 or 1.0, hence at least
  0.5 and strictly positive; so \<open>updateUserVector\<close> applies its delta, rounded and clamped,
  to each of the ten dimensions, for every place.
\<close>

theorem featureVector_all_positive:
  "(placeToFeatureVector pl d = 0.5 \<or> placeToFeatureVector pl d = 0.8
      \<or> placeToFeatureVector pl d = 1)
   \<and> placeToFeatureVector pl d \<ge> 0.5
   \<and> placeToFeatureVector pl d > 0
   \<and> updateUserVector pl action cur d
       = max 0 (min 1 (toFixed3 (cur d + updateDelta action)))"
  using featureVector_values[of pl d] updateUserVector_apply[of pl action cur d]
  by auto

text \<open>
  Claim C1. \<open>generateCourse\<close> returns null exactly when the options have no start venue
  (\<open>generateCourse_null_iff\<close>), and it returns an itinerary whenever they have one and the
  preferences are a complete vector (\<open>generateCourse_returns_with_vector\<close>). With a start
  venue and the legacy preferences the application passes, the call returns nothing: it
  throws before the builder starts.
\<close>

theorem generateCourse_legacy_preferences_throw:
  "startLocation legacyOptions = Some (examplePlace ''A'' Landmark)
   \<and> generateCourse 0 [examplePlace ''B'' Activity] legacyOptions
       = Inl (ReferenceError ''INITIAL_USER_VECTOR'')"
  by (simp add: generateCourse_def convertToUserVector_def not_isUserVector_legacy
        legacyOptions_def exampleOptions_def)

text \<open>
  Claim C5. The options map sequence index 1 to the unvisited activity C, valid for the
  step of that time, and the builder still places B there: \<open>generateCourse\<close> never reads
  \<open>lockedSteps\<close>.
\<close>

theorem generateCourse_ignores_lockedSteps:
  "lockedSteps lockedOptions = Some [1 \<mapsto> examplePlace ''C'' Activity]
   \<and> examplePlace ''C'' Activity \<in> set lockedPool
   \<and> generateCourse 0 lockedPool lockedOptions = Inr (Some lockedCourse)
   \<and> sequence lockedCourse = [examplePlace ''A'' Landmark, examplePlace ''B'' Activity]"
  by (simp add: generateCourse_locked) (simp add: lockedOptions_def lockedPool_def lockedCourse_def)

end
